theory Spec2Isabelle
  imports Main "HOL-Library.Word" "HOL-Library.Sublist"
begin

unbundle bit_operations_syntax

section \<open>Bytes, typed arrays and data views\<close>

text \<open>
  The package works on \<^verbatim>\<open>Uint8Array\<close>s. A byte is an 8-bit word; the elements of an
  array are a list of bytes. Everything that throws in the source is a value of \<open>error\<close>:
  \<^item> \<open>Error msg\<close> is \<^verbatim>\<open>throw new Error(msg)\<close> of the package itself;
  \<^item> \<open>RangeError\<close> is what \<^verbatim>\<open>DataView\<close> and \<^verbatim>\<open>TypedArray.prototype.set\<close> throw on an
    access outside the array;
  \<^item> \<open>Thrown s\<close> is an exception of a library the package calls (node-rsa, node:fs, pbf,
    JSZip), where \<open>s\<close> is its rendering as a string.
\<close>

type_synonym byte = "8 word"
type_synonym bytes = "byte list"

datatype error = Error string | RangeError | Thrown string

definition andThen :: "error + 'a \<Rightarrow> ('a \<Rightarrow> error + 'b) \<Rightarrow> error + 'b" where
  "andThen r f = (case r of Inl e \<Rightarrow> Inl e | Inr x \<Rightarrow> f x)"

text \<open>\<^verbatim>\<open>ch.charCodeAt(0)\<close> stored into a \<^verbatim>\<open>Uint8Array\<close>.\<close>

definition charCodeAt :: "char \<Rightarrow> byte" where
  "charCodeAt ch = of_char ch"

text \<open>\<^verbatim>\<open>new Uint8Array(n)\<close>: \<open>n\<close> zero bytes.\<close>

definition new_Uint8Array :: "nat \<Rightarrow> bytes" where
  "new_Uint8Array n = replicate n 0"

text \<open>
  \<^verbatim>\<open>target.set(source, offset)\<close> copies \<open>source\<close> into \<open>target\<close> at \<open>offset\<close>; it throws
  a RangeError when \<open>source\<close> does not fit, and never grows \<open>target\<close>.
\<close>

definition u8set :: "bytes \<Rightarrow> bytes \<Rightarrow> nat \<Rightarrow> error + bytes" where
  "u8set target source offset =
     (if length source + offset > length target then Inl RangeError
      else Inr (take offset target @ source @ drop (offset + length source) target))"

text \<open>
  \<^verbatim>\<open>array.slice(start, end)\<close> for non-negative indices: both are clamped to the length,
  and the result is a copy. \<^verbatim>\<open>array.slice(start)\<close> runs to the end.
\<close>

definition slice :: "bytes \<Rightarrow> nat \<Rightarrow> nat \<Rightarrow> bytes" where
  "slice xs start end = take (end - start) (drop start xs)"

definition slice_from :: "bytes \<Rightarrow> nat \<Rightarrow> bytes" where
  "slice_from xs start = drop start xs"

text \<open>The four bytes that \<^verbatim>\<open>setUint32(_, v, true)\<close> stores: \<open>v\<close> modulo \<open>2^32\<close>, little-endian.\<close>

definition le32 :: "nat \<Rightarrow> bytes" where
  "le32 v = [of_nat v, of_nat (v div 256), of_nat (v div 65536), of_nat (v div 16777216)]"

definition setUint32 :: "bytes \<Rightarrow> nat \<Rightarrow> nat \<Rightarrow> error + bytes" where
  "setUint32 buf offset v =
     (if offset + 4 > length buf then Inl RangeError
      else Inr (take offset buf @ le32 v @ drop (offset + 4) buf))"

definition getUint8 :: "bytes \<Rightarrow> nat \<Rightarrow> error + byte" where
  "getUint8 buf i = (if i < length buf then Inr (buf ! i) else Inl RangeError)"

text \<open>\<^verbatim>\<open>getUint32(i, true)\<close>: little-endian.\<close>

definition getUint32 :: "bytes \<Rightarrow> nat \<Rightarrow> error + nat" where
  "getUint32 buf i =
     (if i + 4 > length buf then Inl RangeError
      else Inr (unat (buf ! i) + 256 * unat (buf ! (i + 1)) + 65536 * unat (buf ! (i + 2))
                + 16777216 * unat (buf ! (i + 3))))"

text \<open>
  A \<^verbatim>\<open>Uint8Array\<close> received from a caller is a view: \<open>length'\<close> bytes of an
  \<^verbatim>\<open>ArrayBuffer\<close>, starting at \<open>byteOffset\<close>. \<open>elements\<close> are the bytes the array
  indexes. An array made by \<^verbatim>\<open>new Uint8Array(n)\<close> spans its whole buffer
  (\<open>whole\<close>).
\<close>

record uint8array =
  buffer :: bytes
  byteOffset :: nat
  length' :: nat

definition elements :: "uint8array \<Rightarrow> bytes" where
  "elements a = take (length' a) (drop (byteOffset a) (buffer a))"

definition whole :: "bytes \<Rightarrow> uint8array" where
  "whole xs = \<lparr>buffer = xs, byteOffset = 0, length' = length xs\<rparr>"

definition spans_buffer :: "uint8array \<Rightarrow> bool" where
  "spans_buffer a = (byteOffset a = 0 \<and> length' a = length (buffer a))"

section \<open>Collaborators\<close>

text \<open>
  SHA-256, RSA (node-rsa), the file system and the directory packager are used as given.
  They are the fields of \<open>node\<close>; \<open>'rsa\<close> is the type of a \<^verbatim>\<open>NodeRSA\<close> instance. A digest
  is a 256-bit word, so it always has 32 bytes.
\<close>

datatype signingScheme = Pkcs1_sha1 | Pkcs1_sha256

datatype keyFormat = Pkcs8_private_der | Pkcs8_public_der | Pkcs8_private_pem | Pkcs8_public_pem

record manifest =
  manifest_version :: nat
  name :: string
  version :: string
  minimum_chrome_version :: "string option"

record 'rsa node =
  sha256 :: "bytes \<Rightarrow> 256 word"
  new_RSA :: "bytes \<Rightarrow> keyFormat \<Rightarrow> error + 'rsa"
  generate_RSA :: "nat \<Rightarrow> 'rsa"
  exportKey :: "'rsa \<Rightarrow> keyFormat \<Rightarrow> error + bytes"
  rsa_sign :: "'rsa \<Rightarrow> signingScheme \<Rightarrow> bytes \<Rightarrow> error + bytes"
  readFile :: "string \<Rightarrow> error + bytes"
  packContents :: "string \<Rightarrow> error + bytes \<times> manifest"

text \<open>The bytes of \<^verbatim>\<open>hash.digest()\<close>, most significant first.\<close>

definition digest :: "'rsa node \<Rightarrow> bytes \<Rightarrow> bytes" where
  "digest env data = map (\<lambda>i. ucast (drop_bit (8 * (31 - i)) (sha256 env data))) [0..<32]"

text \<open>\<^verbatim>\<open>rsa ??= new RSA(Buffer.from(privateKey), "pkcs8-private-der")\<close>\<close>

definition rsa_or_new :: "'rsa node \<Rightarrow> 'rsa option \<Rightarrow> bytes \<Rightarrow> error + 'rsa" where
  "rsa_or_new env rsa privateKey =
     (case rsa of Some r \<Rightarrow> Inr r | None \<Rightarrow> new_RSA env privateKey Pkcs8_private_der)"

section \<open>The container codec\<close>

definition CRX_ID_SIZE :: nat where
  "CRX_ID_SIZE = 16"

definition SIZE_BYTES :: nat where
  "SIZE_BYTES = 4"

definition kSignature :: bytes where
  "kSignature = map charCodeAt ''Cr24''"

definition kVersion :: bytes where
  "kVersion = [3, 0, 0, 0]"

definition packCrx2 :: "'rsa node \<Rightarrow> bytes \<Rightarrow> bytes \<Rightarrow> bytes \<Rightarrow> 'rsa option \<Rightarrow> error + bytes" where
  "packCrx2 env privateKey publicKey contents rsa =
     andThen (rsa_or_new env rsa privateKey) (\<lambda>r.
     andThen (rsa_sign env r Pkcs1_sha1 contents) (\<lambda>signature.
     let len = 16 + length publicKey + length signature in
     andThen (u8set (new_Uint8Array len) kSignature 0) (\<lambda>result.
     andThen (setUint32 result 4 2) (\<lambda>result.
     andThen (setUint32 result 8 (length publicKey)) (\<lambda>result.
     andThen (setUint32 result 12 (length signature)) (\<lambda>result.
     andThen (u8set result publicKey 16) (\<lambda>result.
     andThen (u8set result signature (16 + length publicKey)) (\<lambda>result.
     andThen (u8set result contents len) (\<lambda>result.
     Inr result)))))))))"

subsection \<open>Protocol buffers: what the pbf library writes\<close>

text \<open>
  The package serialises its header with the pbf library. The writer of pbf appends to a
  growing buffer; here a writer in progress is the list of bytes written so far.
  \<open>varint n\<close> are the bytes \<^verbatim>\<open>writeVarint(n)\<close> appends (base 128, least significant group
  first, the top bit of a byte saying that more follow); pbf writes them so for every
  \<open>n\<close> below \<open>2^64\<close>, which covers every array length.
\<close>

fun varint :: "nat \<Rightarrow> bytes" where
  "varint n = (if n < 128 then [of_nat n] else of_nat (n mod 128 + 128) # varint (n div 128))"

declare varint.simps [simp del]

text \<open>\<^verbatim>\<open>writeTag(tag, type)\<close> writes \<^verbatim>\<open>(tag << 3) | type\<close>; wire type 2 is "bytes".\<close>

definition PBF_BYTES :: nat where
  "PBF_BYTES = 2"

definition writeTag :: "nat \<Rightarrow> nat \<Rightarrow> bytes \<Rightarrow> bytes" where
  "writeTag tag type pbf = pbf @ varint (tag * 8 + type)"

definition writeBytes :: "bytes \<Rightarrow> bytes \<Rightarrow> bytes" where
  "writeBytes data pbf = pbf @ varint (length data) @ data"

definition writeBytesField :: "nat \<Rightarrow> bytes \<Rightarrow> bytes \<Rightarrow> bytes" where
  "writeBytesField tag data pbf = writeBytes data (writeTag tag PBF_BYTES pbf)"

text \<open>
  \<^verbatim>\<open>writeMessage(tag, fn, obj)\<close> writes the tag, reserves one byte for the length, lets
  \<open>fn\<close> write the message, and then puts the length in front of what \<open>fn\<close> wrote
  (moving the message when the length needs more than the reserved byte).
\<close>

definition writeMessage :: "nat \<Rightarrow> ('a \<Rightarrow> bytes \<Rightarrow> bytes) \<Rightarrow> 'a \<Rightarrow> bytes \<Rightarrow> bytes" where
  "writeMessage tag fn obj pbf =
     (let tagged = writeTag tag PBF_BYTES pbf;
          startPos = length tagged + 1;
          written = drop startPos (fn obj (tagged @ [0]))
      in tagged @ varint (length written) @ written)"

subsection \<open>The generated message code (crx3.pb)\<close>

record AsymmetricKeyProof =
  public_key :: "bytes option"
  signature :: "bytes option"

record CrxFileHeader =
  sha256_with_rsa :: "AsymmetricKeyProof list option"
  sha256_with_ecdsa :: "AsymmetricKeyProof list option"
  signed_header_data :: "bytes option"

record SignedData =
  crx_id :: "bytes option"

definition AsymmetricKeyProof_write :: "AsymmetricKeyProof \<Rightarrow> bytes \<Rightarrow> bytes" where
  "AsymmetricKeyProof_write obj pbf =
     (let pbf = (case public_key obj of Some k \<Rightarrow> writeBytesField 1 k pbf | None \<Rightarrow> pbf)
      in (case signature obj of Some s \<Rightarrow> writeBytesField 2 s pbf | None \<Rightarrow> pbf))"

definition CrxFileHeader_write :: "CrxFileHeader \<Rightarrow> bytes \<Rightarrow> bytes" where
  "CrxFileHeader_write obj pbf =
     (let pbf = (case sha256_with_rsa obj of
                   Some ps \<Rightarrow> fold (writeMessage 2 AsymmetricKeyProof_write) ps pbf
                 | None \<Rightarrow> pbf);
          pbf = (case sha256_with_ecdsa obj of
                   Some ps \<Rightarrow> fold (writeMessage 3 AsymmetricKeyProof_write) ps pbf
                 | None \<Rightarrow> pbf)
      in (case signed_header_data obj of Some d \<Rightarrow> writeBytesField 10000 d pbf | None \<Rightarrow> pbf))"

definition SignedData_write :: "SignedData \<Rightarrow> bytes \<Rightarrow> bytes" where
  "SignedData_write obj pbf =
     (case crx_id obj of Some i \<Rightarrow> writeBytesField 1 i pbf | None \<Rightarrow> pbf)"

subsection \<open>Packing version 3\<close>

definition kSignatureContext :: bytes where
  "kSignatureContext = map charCodeAt (''CRX3 SignedData'' @ [CHR 0x00])"

definition generateBinaryCrxId :: "'rsa node \<Rightarrow> bytes \<Rightarrow> bytes" where
  "generateBinaryCrxId env publicKey = slice (digest env publicKey) 0 CRX_ID_SIZE"

definition generateCrx3Signature ::
  "'rsa node \<Rightarrow> bytes \<Rightarrow> bytes \<Rightarrow> bytes \<Rightarrow> 'rsa option \<Rightarrow> error + bytes" where
  "generateCrx3Signature env privateKey signedHeaderData contents rsa =
     andThen (rsa_or_new env rsa privateKey) (\<lambda>r.
     andThen (setUint32 (new_Uint8Array SIZE_BYTES) 0 (length signedHeaderData)) (\<lambda>sizeOctets.
     let toSign = concat [kSignatureContext, sizeOctets, signedHeaderData, contents]
     in rsa_sign env r Pkcs1_sha256 toSign))"

definition packCrx3 :: "'rsa node \<Rightarrow> bytes \<Rightarrow> bytes \<Rightarrow> bytes \<Rightarrow> 'rsa option \<Rightarrow> error + bytes" where
  "packCrx3 env privateKey publicKey contents rsa =
     (let signedHeaderData =
            SignedData_write \<lparr>crx_id = Some (generateBinaryCrxId env publicKey)\<rparr> []
      in
      andThen (generateCrx3Signature env privateKey signedHeaderData contents rsa) (\<lambda>signature.
      let header = CrxFileHeader_write
            \<lparr>sha256_with_rsa = Some [\<lparr>public_key = Some publicKey, signature = Some signature\<rparr>],
             sha256_with_ecdsa = None,
             signed_header_data = Some signedHeaderData\<rparr> [];
          size = length kSignature + length kVersion + SIZE_BYTES + length header
                 + length contents;
          index = 0
      in
      andThen (u8set (new_Uint8Array size) kSignature index) (\<lambda>result.
      let index = index + length kSignature in
      andThen (u8set result kVersion index) (\<lambda>result.
      let index = index + length kVersion in
      andThen (setUint32 result index (length header)) (\<lambda>result.
      let index = index + SIZE_BYTES in
      andThen (u8set result header index) (\<lambda>result.
      let index = index + length header in
      andThen (u8set result contents index) (\<lambda>result.
      Inr result)))))))"

subsection \<open>Protocol buffers: what the pbf library reads\<close>

text \<open>
  A reader of pbf is a buffer and a position in it. The functions below take the buffer
  and the position and return the value read with the new position. Reading an index
  outside the buffer gives \<^verbatim>\<open>undefined\<close> in JavaScript (\<open>None\<close> here); no typed array has
  \<open>2^53 - 1\<close> elements or more.
\<close>

lemma andThen_cong [fundef_cong]:
  "r = r' \<Longrightarrow> (\<And>x. r' = Inr x \<Longrightarrow> f x = f' x) \<Longrightarrow> andThen r f = andThen r' f'"
  by (auto simp: andThen_def split: sum.splits)

definition at :: "bytes \<Rightarrow> nat \<Rightarrow> byte option" where
  "at buf i = (if i < length buf \<and> i < 9007199254740991 then Some (buf ! i) else None)"

text \<open>
  pbf computes in double precision. \<open>toDouble v\<close> is the double nearest to the natural
  number \<open>v\<close> (ties to the even mantissa); it is \<open>v\<close> itself below \<open>2^53\<close>.
\<close>

function ulp :: "nat \<Rightarrow> nat" where
  "ulp v = (if v < 9007199254740992 then 1 else 2 * ulp (v div 2))"
  by pat_completeness auto
termination
  by (relation "measure id") auto

declare ulp.simps [simp del]

definition toDouble :: "nat \<Rightarrow> nat" where
  "toDouble v =
     (let q = ulp v; r = v mod q; low = v - r
           in if 2 * r < q then low
              else if 2 * r > q then low + q
              else if even (low div q) then low else low + q)"

text \<open>\<^verbatim>\<open>val >> 3\<close> first converts \<open>val\<close> to a signed 32-bit integer.\<close>

definition toInt32 :: "nat \<Rightarrow> int" where
  "toInt32 v = (let m = int (v mod 2 ^ 32) in if m < 2 ^ 31 then m else m - 2 ^ 32)"

text \<open>
  \<^verbatim>\<open>readVarint()\<close> reads at most ten bytes, seven bits from each (one bit from the tenth),
  and throws when the tenth byte still announces another. A byte that is \<^verbatim>\<open>undefined\<close>
  adds nothing and does not end the number.
\<close>

fun readVarint_bytes :: "nat \<Rightarrow> nat \<Rightarrow> bytes \<Rightarrow> nat \<Rightarrow> error + nat \<times> nat" where
  "readVarint_bytes 0 shift buf pos = Inl (Thrown ''Error: Expected varint not more than 10 bytes'')"
| "readVarint_bytes (Suc n) shift buf pos =
     (case at buf pos of
        None \<Rightarrow> readVarint_bytes n (shift + 7) buf (pos + 1)
      | Some b \<Rightarrow>
          let part = unat (if n = 0 then b AND 1 else b AND 127) * 2 ^ shift in
          if b < 128 then Inr (part, pos + 1)
          else andThen (readVarint_bytes n (shift + 7) buf (pos + 1)) (\<lambda>(v, p). Inr (part + v, p)))"

definition readVarint :: "bytes \<Rightarrow> nat \<Rightarrow> error + nat \<times> nat" where
  "readVarint buf pos = andThen (readVarint_bytes 10 0 buf pos) (\<lambda>(v, p). Inr (toDouble v, p))"

lemma readVarint_bytes_pos:
  "readVarint_bytes n shift buf pos = Inr (v, p) \<Longrightarrow>
     pos < length buf \<and> pos < p \<and> p \<le> length buf \<and> p \<le> 9007199254740991"
proof (induction n arbitrary: shift pos v)
  case 0
  then show ?case by simp
next
  case (Suc n)
  show ?case
  proof (cases "at buf pos")
    case None
    with Suc.prems have "readVarint_bytes n (shift + 7) buf (pos + 1) = Inr (v, p)" by simp
    from Suc.IH [OF this] None show ?thesis by (simp add: at_def split: if_splits)
  next
    case (Some b)
    then have lt: "pos < length buf" "pos < 9007199254740991" by (simp_all add: at_def split: if_splits)
    show ?thesis
    proof (cases "b < 128")
      case True
      with Suc.prems Some lt show ?thesis by (auto simp: Let_def)
    next
      case False
      with Suc.prems Some obtain v' where "readVarint_bytes n (shift + 7) buf (pos + 1) = Inr (v', p)"
        by (auto simp: Let_def andThen_def split: sum.splits)
      from Suc.IH [OF this] lt show ?thesis by simp
    qed
  qed
qed

lemma readVarint_pos:
  "readVarint buf pos = Inr (v, p) \<Longrightarrow>
     pos < length buf \<and> pos < p \<and> p \<le> length buf \<and> p \<le> 9007199254740991"
  by (auto simp: readVarint_def andThen_def split: sum.splits dest: readVarint_bytes_pos)

lemma ulp_ge: "9007199254740992 \<le> v \<Longrightarrow> 2 \<le> ulp v \<and> 4503599627370496 \<le> v div ulp v"
proof (induction v rule: ulp.induct)
  case (1 v)
  show ?case
  proof (cases "v div 2 < 9007199254740992")
    case True
    with "1.prems" show ?thesis by (simp add: ulp.simps [of v] ulp.simps [of "v div 2"])
  next
    case False
    with "1.IH" "1.prems" have "2 \<le> ulp (v div 2) \<and> 4503599627370496 \<le> v div 2 div ulp (v div 2)"
      by simp
    with "1.prems" show ?thesis
      by (simp add: ulp.simps [of v] div_mult2_eq)
  qed
qed

lemma toDouble_small: "v < 9007199254740992 \<Longrightarrow> toDouble v = v"
  by (simp add: toDouble_def ulp.simps [of v])

lemma toDouble_large: "9007199254740992 \<le> v \<Longrightarrow> 9007199254740992 \<le> toDouble v"
proof -
  assume v: "9007199254740992 \<le> v"
  define q where "q = ulp v"
  from ulp_ge [OF v] have q: "2 \<le> q" "4503599627370496 \<le> v div q" by (simp_all add: q_def)
  have "2 * 4503599627370496 \<le> q * (v div q)" using q by (intro mult_mono) simp_all
  also have "\<dots> = v - v mod q" by (simp add: minus_mod_eq_mult_div)
  finally have "9007199254740992 \<le> v - v mod q" by simp
  moreover have "v - v mod q \<le> v - v mod q + q" by simp
  ultimately show ?thesis unfolding toDouble_def Let_def q_def by (auto split: if_splits)
qed

lemma toDouble_gt: "p < 9007199254740992 \<Longrightarrow> p < v \<Longrightarrow> p < toDouble v"
  using toDouble_small [of v] toDouble_large [of v] by (cases "v < 9007199254740992") auto

text \<open>
  \<^verbatim>\<open>readBytes()\<close>: \<^verbatim>\<open>end = this.readVarint() + this.pos\<close>, the result is
  \<^verbatim>\<open>buf.subarray(pos, end)\<close> (clamped to the buffer), and the position moves to \<open>end\<close>.
\<close>

definition readBytes :: "bytes \<Rightarrow> nat \<Rightarrow> error + bytes \<times> nat" where
  "readBytes buf pos =
     andThen (readVarint buf pos) (\<lambda>(n, pos).
     let end = toDouble (n + pos) in Inr (slice buf pos end, end))"

lemma readBytes_pos:
  "readBytes buf pos = Inr (b, p) \<Longrightarrow> pos < p"
  by (auto simp: readBytes_def andThen_def Let_def split: sum.splits
           dest!: readVarint_pos intro!: toDouble_gt)

text \<open>\<^verbatim>\<open>skip(val)\<close> passes over a field that the message does not know, by its wire type.\<close>

function skipVarint :: "bytes \<Rightarrow> nat \<Rightarrow> nat" where
  "skipVarint buf pos =
     (case at buf pos of
        Some b \<Rightarrow> if b > 127 then skipVarint buf (pos + 1) else pos + 1
      | None \<Rightarrow> pos + 1)"
  by pat_completeness auto
termination
  by (relation "measure (\<lambda>(buf, pos). length buf - pos)") (auto simp: at_def split: if_splits)

declare skipVarint.simps [simp del]

definition skip :: "bytes \<Rightarrow> nat \<Rightarrow> nat \<Rightarrow> error + nat" where
  "skip buf val pos =
     (let type = val mod 8 in
      if type = 0 then Inr (skipVarint buf pos)
      else if type = 2 then andThen (readVarint buf pos) (\<lambda>(n, pos). Inr (toDouble (n + pos)))
      else if type = 5 then Inr (pos + 4)
      else if type = 1 then Inr (pos + 8)
      else Inl (Thrown (''Error: Unimplemented type: '' @ [char_of (48 + type)])))"

lemma skipVarint_pos: "pos < skipVarint buf pos"
proof (induction buf pos rule: skipVarint.induct)
  case (1 buf pos)
  show ?case
  proof (cases "at buf pos")
    case None
    then show ?thesis by (subst skipVarint.simps) simp
  next
    case (Some b)
    with "1.IH" show ?thesis by (subst skipVarint.simps) (auto simp: less_Suc_eq)
  qed
qed

lemma skip_pos: "skip buf val pos = Inr p \<Longrightarrow> pos < p"
  using skipVarint_pos [of pos buf]
  by (auto simp: skip_def andThen_def Let_def split: sum.splits if_splits
           dest!: readVarint_pos intro!: toDouble_gt)

subsection \<open>Reading the messages (crx3.pb)\<close>

text \<open>
  \<^verbatim>\<open>X.read(pbf, end)\<close> is \<^verbatim>\<open>pbf.readFields(X._readField, init, end)\<close>: while the position
  is before \<open>end\<close>, read a varint \<open>val\<close>, hand its tag \<^verbatim>\<open>val >> 3\<close> to the field reader, and
  skip the field when the field reader did not move.
\<close>

definition AsymmetricKeyProof_readField ::
  "int \<Rightarrow> AsymmetricKeyProof \<Rightarrow> bytes \<Rightarrow> nat \<Rightarrow> error + AsymmetricKeyProof \<times> nat" where
  "AsymmetricKeyProof_readField tag obj buf pos =
     (if tag = 1 then andThen (readBytes buf pos) (\<lambda>(b, pos). Inr (obj\<lparr>public_key := Some b\<rparr>, pos))
      else if tag = 2 then andThen (readBytes buf pos) (\<lambda>(b, pos). Inr (obj\<lparr>signature := Some b\<rparr>, pos))
      else Inr (obj, pos))"

lemma AsymmetricKeyProof_readField_pos:
  "AsymmetricKeyProof_readField tag obj buf pos = Inr (obj', p) \<Longrightarrow> pos \<le> p"
  by (auto simp: AsymmetricKeyProof_readField_def andThen_def split: sum.splits if_splits
           dest!: readBytes_pos)

function AsymmetricKeyProof_readFields ::
  "bytes \<Rightarrow> nat \<Rightarrow> AsymmetricKeyProof \<Rightarrow> nat \<Rightarrow> error + AsymmetricKeyProof \<times> nat" where
  "AsymmetricKeyProof_readFields buf end obj pos =
     (if pos < end then
        andThen (readVarint buf pos) (\<lambda>(val, startPos).
        andThen (AsymmetricKeyProof_readField (toInt32 val div 8) obj buf startPos) (\<lambda>(obj, pos).
        andThen (if pos = startPos then skip buf val pos else Inr pos) (\<lambda>pos.
        AsymmetricKeyProof_readFields buf end obj pos)))
      else Inr (obj, pos))"
  by pat_completeness auto
termination
  apply (relation "measure (\<lambda>(buf, end, obj, pos). length buf - pos)")
   apply simp
  apply (auto dest!: readVarint_pos AsymmetricKeyProof_readField_pos skip_pos split: if_splits)
  done

declare AsymmetricKeyProof_readFields.simps [simp del]

lemma AsymmetricKeyProof_readFields_pos:
  "AsymmetricKeyProof_readFields buf end obj pos = Inr (obj', p) \<Longrightarrow> pos \<le> p"
proof (induction buf "end" obj pos rule: AsymmetricKeyProof_readFields.induct)
  case (1 buf "end" obj pos)
  show ?case
  proof (cases "pos < end")
    case False
    with "1.prems" show ?thesis by (simp add: AsymmetricKeyProof_readFields.simps [of buf "end" obj pos])
  next
    case True
    with "1.prems" obtain val startPos obj1 pos1 pos2 where
      rv: "readVarint buf pos = Inr (val, startPos)" and
      rf: "AsymmetricKeyProof_readField (toInt32 val div 8) obj buf startPos = Inr (obj1, pos1)" and
      sk: "(if pos1 = startPos then skip buf val pos1 else Inr pos1) = Inr pos2" and
      rec: "AsymmetricKeyProof_readFields buf end obj1 pos2 = Inr (obj', p)"
      by (auto simp: AsymmetricKeyProof_readFields.simps [of buf "end" obj pos] andThen_def
               split: sum.splits)
    from "1.IH" [OF True rv refl rf refl sk] rec have "pos2 \<le> p" by simp
    moreover from rv have "pos < startPos" by (auto dest: readVarint_pos)
    moreover from rf have "startPos \<le> pos1" by (rule AsymmetricKeyProof_readField_pos)
    moreover from sk have "pos1 \<le> pos2" by (auto split: if_splits dest: skip_pos)
    ultimately show ?thesis by simp
  qed
qed

definition AsymmetricKeyProof_read :: "bytes \<Rightarrow> nat \<Rightarrow> nat \<Rightarrow> error + AsymmetricKeyProof \<times> nat" where
  "AsymmetricKeyProof_read buf pos end =
     AsymmetricKeyProof_readFields buf end \<lparr>public_key = None, signature = None\<rparr> pos"

definition push :: "'a list option \<Rightarrow> 'a \<Rightarrow> error + 'a list option" where
  "push xs x = (case xs of Some ys \<Rightarrow> Inr (Some (ys @ [x]))
                | None \<Rightarrow> Inl (Thrown ''TypeError''))"

definition CrxFileHeader_readField ::
  "int \<Rightarrow> CrxFileHeader \<Rightarrow> bytes \<Rightarrow> nat \<Rightarrow> error + CrxFileHeader \<times> nat" where
  "CrxFileHeader_readField tag obj buf pos =
     (if tag = 2 then
        andThen (readVarint buf pos) (\<lambda>(n, pos).
        andThen (AsymmetricKeyProof_read buf pos (toDouble (n + pos))) (\<lambda>(proof, pos).
        andThen (push (sha256_with_rsa obj) proof) (\<lambda>ps.
        Inr (obj\<lparr>sha256_with_rsa := ps\<rparr>, pos))))
      else if tag = 3 then
        andThen (readVarint buf pos) (\<lambda>(n, pos).
        andThen (AsymmetricKeyProof_read buf pos (toDouble (n + pos))) (\<lambda>(proof, pos).
        andThen (push (sha256_with_ecdsa obj) proof) (\<lambda>ps.
        Inr (obj\<lparr>sha256_with_ecdsa := ps\<rparr>, pos))))
      else if tag = 10000 then
        andThen (readBytes buf pos) (\<lambda>(b, pos). Inr (obj\<lparr>signed_header_data := Some b\<rparr>, pos))
      else Inr (obj, pos))"

lemma CrxFileHeader_readField_pos:
  "CrxFileHeader_readField tag obj buf pos = Inr (obj', p) \<Longrightarrow> pos \<le> p"
  by (auto simp: CrxFileHeader_readField_def AsymmetricKeyProof_read_def andThen_def
           split: sum.splits if_splits
           dest!: readBytes_pos readVarint_pos AsymmetricKeyProof_readFields_pos)

function CrxFileHeader_readFields ::
  "bytes \<Rightarrow> nat \<Rightarrow> CrxFileHeader \<Rightarrow> nat \<Rightarrow> error + CrxFileHeader \<times> nat" where
  "CrxFileHeader_readFields buf end obj pos =
     (if pos < end then
        andThen (readVarint buf pos) (\<lambda>(val, startPos).
        andThen (CrxFileHeader_readField (toInt32 val div 8) obj buf startPos) (\<lambda>(obj, pos).
        andThen (if pos = startPos then skip buf val pos else Inr pos) (\<lambda>pos.
        CrxFileHeader_readFields buf end obj pos)))
      else Inr (obj, pos))"
  by pat_completeness auto
termination
  by (relation "measure (\<lambda>(buf, end, obj, pos). length buf - pos)")
     (auto dest!: readVarint_pos CrxFileHeader_readField_pos skip_pos split: if_splits)

declare CrxFileHeader_readFields.simps [simp del]

definition CrxFileHeader_read :: "bytes \<Rightarrow> error + CrxFileHeader" where
  "CrxFileHeader_read buf =
     andThen (CrxFileHeader_readFields buf (length buf)
                \<lparr>sha256_with_rsa = Some [], sha256_with_ecdsa = Some [], signed_header_data = None\<rparr> 0)
       (\<lambda>(obj, pos). Inr obj)"

definition SignedData_readField ::
  "int \<Rightarrow> SignedData \<Rightarrow> bytes \<Rightarrow> nat \<Rightarrow> error + SignedData \<times> nat" where
  "SignedData_readField tag obj buf pos =
     (if tag = 1 then andThen (readBytes buf pos) (\<lambda>(b, pos). Inr (obj\<lparr>crx_id := Some b\<rparr>, pos))
      else Inr (obj, pos))"

lemma SignedData_readField_pos:
  "SignedData_readField tag obj buf pos = Inr (obj', p) \<Longrightarrow> pos \<le> p"
  by (auto simp: SignedData_readField_def andThen_def split: sum.splits if_splits
           dest!: readBytes_pos)

function SignedData_readFields ::
  "bytes \<Rightarrow> nat \<Rightarrow> SignedData \<Rightarrow> nat \<Rightarrow> error + SignedData \<times> nat" where
  "SignedData_readFields buf end obj pos =
     (if pos < end then
        andThen (readVarint buf pos) (\<lambda>(val, startPos).
        andThen (SignedData_readField (toInt32 val div 8) obj buf startPos) (\<lambda>(obj, pos).
        andThen (if pos = startPos then skip buf val pos else Inr pos) (\<lambda>pos.
        SignedData_readFields buf end obj pos)))
      else Inr (obj, pos))"
  by pat_completeness auto
termination
  by (relation "measure (\<lambda>(buf, end, obj, pos). length buf - pos)")
     (auto dest!: readVarint_pos SignedData_readField_pos skip_pos split: if_splits)

declare SignedData_readFields.simps [simp del]

definition SignedData_read :: "bytes \<Rightarrow> error + SignedData" where
  "SignedData_read buf =
     andThen (SignedData_readFields buf (length buf) \<lparr>crx_id = None\<rparr> 0) (\<lambda>(obj, pos). Inr obj)"

subsection \<open>Unpacking\<close>

text \<open>\<^verbatim>\<open>xs.every((v, i) => p)\<close> stops at the first element that fails.\<close>

fun every_from :: "('a \<Rightarrow> nat \<Rightarrow> error + bool) \<Rightarrow> nat \<Rightarrow> 'a list \<Rightarrow> error + bool" where
  "every_from p i [] = Inr True"
| "every_from p i (v # vs) =
     andThen (p v i) (\<lambda>ok. if ok then every_from p (Suc i) vs else Inr False)"

definition every :: "'a list \<Rightarrow> ('a \<Rightarrow> nat \<Rightarrow> error + bool) \<Rightarrow> error + bool" where
  "every xs p = every_from p 0 xs"

datatype unpacked =
    Crx2 (archive: bytes) (key: bytes) (sign: bytes)
  | Crx3 (archive: bytes) (header: CrxFileHeader)

fun crxVersion_of :: "unpacked \<Rightarrow> nat" where
  "crxVersion_of (Crx2 a k s) = 2"
| "crxVersion_of (Crx3 a h) = 3"

text \<open>
  \<^verbatim>\<open>unpack\<close> reads the magic, the version and the lengths through a \<^verbatim>\<open>DataView\<close> on
  \<^verbatim>\<open>crx.buffer\<close>, and slices \<open>crx\<close> itself.
\<close>

definition unpack :: "uint8array \<Rightarrow> error + unpacked" where
  "unpack crx =
     (let abuf = buffer crx in
      andThen (every kSignature (\<lambda>v i. andThen (getUint8 abuf i) (\<lambda>b. Inr (b = v)))) (\<lambda>ok.
      if ok then
        andThen (getUint32 abuf 4) (\<lambda>crxVersion.
        if crxVersion = 2 then
          andThen (getUint32 abuf 8) (\<lambda>keyLength.
          andThen (getUint32 abuf 12) (\<lambda>signLength.
          Inr (Crx2 (slice_from (elements crx) (16 + keyLength + signLength))
                    (slice (elements crx) 16 (16 + keyLength))
                    (slice (elements crx) (16 + keyLength) (16 + keyLength + signLength)))))
        else if crxVersion = 3 then
          andThen (getUint32 abuf 8) (\<lambda>headerLength.
          let archive = slice_from (elements crx) (12 + headerLength);
              header = slice (elements crx) 12 (12 + headerLength)
          in andThen (CrxFileHeader_read header) (\<lambda>decodedHeader.
             Inr (Crx3 archive decodedHeader)))
        else Inl (Error ''The file given is not a valid CRX file''))
      else Inl (Error ''The file given is not a valid CRX file'')))"

subsection \<open>The identifier\<close>

text \<open>
  \<^verbatim>\<open>digest.toString("hex")\<close> gives two lower-case hexadecimal digits for a byte;
  \<^verbatim>\<open>parseInt(x, 16)\<close> of a one-character string is its value as a hexadecimal digit, or
  NaN (\<open>None\<close>); \<^verbatim>\<open>n.toString(26)\<close> writes \<open>n\<close> with the digits 0 to 9 and a to p.
\<close>

definition digitChar :: "nat \<Rightarrow> char" where
  "digitChar d = ''0123456789abcdefghijklmnopqrstuvwxyz'' ! d"

definition toString_hex :: "bytes \<Rightarrow> string" where
  "toString_hex bs = concat (map (\<lambda>b. [digitChar (unat b div 16), digitChar (unat b mod 16)]) bs)"

definition parseInt16 :: "char \<Rightarrow> nat option" where
  "parseInt16 x =
     (let c = (of_char x :: nat) in
      if 48 \<le> c \<and> c \<le> 57 then Some (c - 48)
      else if 97 \<le> c \<and> c \<le> 102 then Some (c - 87)
      else if 65 \<le> c \<and> c \<le> 70 then Some (c - 55)
      else None)"

function toString26 :: "nat \<Rightarrow> string" where
  "toString26 n = (if n < 26 then [digitChar n] else toString26 (n div 26) @ [digitChar (n mod 26)])"
  by pat_completeness auto
termination
  by (relation "measure id") auto

declare toString26.simps [simp del]

definition generateCrxId :: "'rsa node \<Rightarrow> bytes \<Rightarrow> string" where
  "generateCrxId env publicKey =
     take 32 (concat (map (\<lambda>x. case parseInt16 x of Some v \<Rightarrow> toString26 (v + 10) | None \<Rightarrow> ''NaN'')
                          (toString_hex (digest env publicKey))))"

section \<open>The resolution engine\<close>

text \<open>
  A property of the input record is absent (\<open>Undefined\<close>), requested (\<open>Null\<close>), or
  given. A key or the contents is given as bytes or as a path. \<^verbatim>\<open>contents\<close>,
  \<^verbatim>\<open>keySize\<close>, \<^verbatim>\<open>rsa\<close>, \<^verbatim>\<open>crxVersion\<close> and \<^verbatim>\<open>crxUrl\<close> cannot be requested
  (\<open>None\<close> is absent). The version is a number, compared with 2 and 3 only.
\<close>

datatype 'a field = Undefined | Null | Given 'a

datatype blob = Bytes bytes | Path string

record 'rsa PackInput =
  contents :: "blob option"
  privateKey :: "blob field"
  keySize :: "nat option"
  publicKey :: "blob field"
  rsa :: "'rsa option"
  id' :: "string field"
  crx :: "bytes field"
  crxVersion :: "int option"
  crxUrl :: "string option"
  updateXML :: "string field"
  extVersion :: "string field"
  minChromeVersion :: "string field"
  manifest :: "manifest field"

text \<open>
  \<^verbatim>\<open>pack\<close> changes the record it is given, also when it throws: an outcome holds the
  record as the caller finds it afterwards.
\<close>

datatype 'rsa outcome = Resolved "'rsa PackInput" | Rejected error "'rsa PackInput"

fun options_after :: "'rsa outcome \<Rightarrow> 'rsa PackInput" where
  "options_after (Resolved opts) = opts"
| "options_after (Rejected e opts) = opts"

definition next_step :: "'rsa outcome \<Rightarrow> ('rsa PackInput \<Rightarrow> 'rsa outcome) \<Rightarrow> 'rsa outcome" where
  "next_step r f = (case r of Resolved opts \<Rightarrow> f opts | Rejected e opts \<Rightarrow> Rejected e opts)"

text \<open>The string \<^verbatim>\<open>`${e}`\<close> of an exception.\<close>

fun render :: "error \<Rightarrow> string" where
  "render (Error msg) = ''Error: '' @ msg"
| "render RangeError = ''RangeError''"
| "render (Thrown s) = s"

text \<open>The template string of \<^verbatim>\<open>generateUpdateXML\<close>; a string is truthy when it is not empty.\<close>

definition generateUpdateXML :: "string \<Rightarrow> string \<Rightarrow> string \<Rightarrow> string option \<Rightarrow> string" where
  "generateUpdateXML crxId url ver minChrome =
     (let q = [CHR 0x27]; nl = [CHR 0x0A] in
      ''<?xml version='' @ q @ ''1.0'' @ q @ '' encoding='' @ q @ ''UTF-8'' @ q @ ''?>'' @ nl @
      ''<gupdate xmlns='' @ q @ ''http://www.google.com/update2/response'' @ q @
        '' protocol='' @ q @ ''2.0'' @ q @ ''>'' @ nl @
      ''  <app appid='' @ q @ crxId @ q @ ''>'' @ nl @
      ''    <updatecheck codebase='' @ q @ url @ q @ '' version='' @ q @ ver @ q @
        (case minChrome of
           Some m \<Rightarrow> if m \<noteq> [] then '' prodversionmin='' @ q @ m @ q else []
         | None \<Rightarrow> []) @ '' />'' @ nl @
      ''  </app>'' @ nl @
      ''</gupdate>'')"

text \<open>Lines 490 to 500: a private key given as a path is read from the file.\<close>

definition loadPrivateKey :: "'rsa node \<Rightarrow> 'rsa PackInput \<Rightarrow> 'rsa outcome" where
  "loadPrivateKey env opts =
     (case privateKey opts of
        Given (Path p) \<Rightarrow>
          (let isPem = suffix ''.pem'' p;
               caught = (\<lambda>e opts. if \<not> sublist ''ENOENT'' (render e) then Rejected e opts
                                  else Resolved (opts\<lparr>privateKey := Undefined\<rparr>))
           in case readFile env p of
                Inl e \<Rightarrow> caught e opts
              | Inr data \<Rightarrow>
                  if isPem then
                    (case (case rsa opts of Some r \<Rightarrow> Inr r
                           | None \<Rightarrow> new_RSA env data Pkcs8_private_pem) of
                       Inl e \<Rightarrow> caught e opts
                     | Inr r \<Rightarrow>
                         (let opts = opts\<lparr>rsa := Some r\<rparr> in
                          case exportKey env r Pkcs8_private_der of
                            Inl e \<Rightarrow> caught e opts
                          | Inr der \<Rightarrow> Resolved (opts\<lparr>privateKey := Given (Bytes der)\<rparr>)))
                  else Resolved (opts\<lparr>privateKey := Given (Bytes data)\<rparr>))
      | _ \<Rightarrow> Resolved opts)"

text \<open>Lines 501 to 511: the same for the public key, without keeping the RSA instance.\<close>

definition loadPublicKey :: "'rsa node \<Rightarrow> 'rsa PackInput \<Rightarrow> 'rsa outcome" where
  "loadPublicKey env opts =
     (case publicKey opts of
        Given (Path p) \<Rightarrow>
          (let isPem = suffix ''.pem'' p;
               caught = (\<lambda>e. if \<not> sublist ''ENOENT'' (render e) then Rejected e opts
                             else Resolved (opts\<lparr>publicKey := Undefined\<rparr>))
           in case readFile env p of
                Inl e \<Rightarrow> caught e
              | Inr data \<Rightarrow>
                  if isPem then
                    (case andThen (new_RSA env data Pkcs8_public_pem)
                                  (\<lambda>r. exportKey env r Pkcs8_public_der) of
                       Inl e \<Rightarrow> caught e
                     | Inr der \<Rightarrow> Resolved (opts\<lparr>publicKey := Given (Bytes der)\<rparr>))
                  else Resolved (opts\<lparr>publicKey := Given (Bytes data)\<rparr>))
      | _ \<Rightarrow> Resolved opts)"

text \<open>\<^verbatim>\<open>if (x === undefined) x = null\<close>\<close>

definition request :: "'a field \<Rightarrow> 'a field" where
  "request x = (if x = Undefined then Null else x)"

text \<open>Lines 512 to 534: what is requested requests what it needs.\<close>

definition requireForUpdateXML :: "'rsa PackInput \<Rightarrow> 'rsa outcome" where
  "requireForUpdateXML opts =
     (if updateXML opts = Null then
        if crxUrl opts = None
        then Rejected (Error ''crxUrl must be defined to generate updateXML'') opts
        else Resolved (opts\<lparr>id' := request (id' opts),
                             extVersion := request (extVersion opts),
                             minChromeVersion := request (minChromeVersion opts)\<rparr>)
      else Resolved opts)"

definition requireForExtVersion :: "'rsa PackInput \<Rightarrow> 'rsa outcome" where
  "requireForExtVersion opts =
     (if extVersion opts = Null then Resolved (opts\<lparr>manifest := request (manifest opts)\<rparr>)
      else Resolved opts)"

definition requireForMinChromeVersion :: "'rsa PackInput \<Rightarrow> 'rsa outcome" where
  "requireForMinChromeVersion opts =
     (if minChromeVersion opts = Null then Resolved (opts\<lparr>manifest := request (manifest opts)\<rparr>)
      else Resolved opts)"

definition requireForCrx :: "'rsa PackInput \<Rightarrow> 'rsa outcome" where
  "requireForCrx opts =
     (if crx opts = Null then
        if contents opts = None
        then Rejected (Error ''contents must be defined to generate crx'') opts
        else Resolved (opts\<lparr>privateKey := request (privateKey opts),
                             publicKey := request (publicKey opts)\<rparr>)
      else Resolved opts)"

definition requireForId :: "'rsa PackInput \<Rightarrow> 'rsa outcome" where
  "requireForId opts =
     (if id' opts = Null then Resolved (opts\<lparr>publicKey := request (publicKey opts)\<rparr>)
      else Resolved opts)"

definition requireForPublicKey :: "'rsa PackInput \<Rightarrow> 'rsa outcome" where
  "requireForPublicKey opts =
     (if publicKey opts = Null then Resolved (opts\<lparr>privateKey := request (privateKey opts)\<rparr>)
      else Resolved opts)"

text \<open>
  Lines 536 to 543: the keys. \<^verbatim>\<open>options.keySize || 4096\<close> is 4096 for an absent size
  and for 0.
\<close>

definition generateKeys :: "'rsa node \<Rightarrow> 'rsa PackInput \<Rightarrow> 'rsa outcome" where
  "generateKeys env opts =
     (if privateKey opts = Null then
        (let bits = (case keySize opts of Some b \<Rightarrow> if b = 0 then 4096 else b | None \<Rightarrow> 4096);
             r = generate_RSA env bits;
             opts = opts\<lparr>rsa := Some r\<rparr>
         in case exportKey env r Pkcs8_private_der of
              Inl e \<Rightarrow> Rejected e opts
            | Inr priv \<Rightarrow>
                (let opts = opts\<lparr>privateKey := Given (Bytes priv)\<rparr> in
                 case exportKey env r Pkcs8_public_der of
                   Inl e \<Rightarrow> Rejected e opts
                 | Inr pub \<Rightarrow> Resolved (opts\<lparr>publicKey := Given (Bytes pub)\<rparr>)))
      else Resolved opts)"

text \<open>
  \<^verbatim>\<open>options.privateKey!\<close> and its like: the property is bytes wherever the code relies on
  it; node throws a TypeError on anything else.
\<close>

definition the_bytes :: "blob field \<Rightarrow> error + bytes" where
  "the_bytes x = (case x of Given (Bytes b) \<Rightarrow> Inr b | _ \<Rightarrow> Inl (Thrown ''TypeError''))"

definition derivePublicKey :: "'rsa node \<Rightarrow> 'rsa PackInput \<Rightarrow> 'rsa outcome" where
  "derivePublicKey env opts =
     (if publicKey opts = Null then
        (case (case rsa opts of Some r \<Rightarrow> Inr r
               | None \<Rightarrow> andThen (the_bytes (privateKey opts))
                                  (\<lambda>priv. new_RSA env priv Pkcs8_private_der)) of
           Inl e \<Rightarrow> Rejected e opts
         | Inr r \<Rightarrow>
             (let opts = opts\<lparr>rsa := Some r\<rparr> in
              case exportKey env r Pkcs8_public_der of
                Inl e \<Rightarrow> Rejected e opts
              | Inr pub \<Rightarrow> Resolved (opts\<lparr>publicKey := Given (Bytes pub)\<rparr>)))
      else Resolved opts)"

text \<open>Lines 544 to 546: contents given as a path are packaged, with their manifest.\<close>

definition loadContents :: "'rsa node \<Rightarrow> 'rsa PackInput \<Rightarrow> 'rsa outcome" where
  "loadContents env opts =
     (case contents opts of
        Some (Path p) \<Rightarrow>
          (case packContents env p of
             Inl e \<Rightarrow> Rejected e opts
           | Inr (c, m) \<Rightarrow> Resolved (opts\<lparr>contents := Some (Bytes c), manifest := Given m\<rparr>))
      | _ \<Rightarrow> Resolved opts)"

text \<open>Lines 547 to 550: the container.\<close>

definition resolveCrx :: "'rsa node \<Rightarrow> 'rsa PackInput \<Rightarrow> 'rsa outcome" where
  "resolveCrx env opts =
     (if crx opts = Null then
        (let args = andThen (the_bytes (privateKey opts)) (\<lambda>priv.
                    andThen (the_bytes (publicKey opts)) (\<lambda>pub.
                    andThen (the_bytes (case contents opts of Some c \<Rightarrow> Given c | None \<Rightarrow> Undefined))
                      (\<lambda>c. Inr (priv, pub, c))))
         in if crxVersion opts = Some 3 \<or> crxVersion opts = None then
              (case andThen args (\<lambda>(priv, pub, c). packCrx3 env priv pub c (rsa opts)) of
                 Inl e \<Rightarrow> Rejected e opts
               | Inr out \<Rightarrow> Resolved (opts\<lparr>crx := Given out\<rparr>))
            else if crxVersion opts = Some 2 then
              (case andThen args (\<lambda>(priv, pub, c). packCrx2 env priv pub c (rsa opts)) of
                 Inl e \<Rightarrow> Rejected e opts
               | Inr out \<Rightarrow> Resolved (opts\<lparr>crx := Given out\<rparr>))
            else Resolved opts)
      else Resolved opts)"

text \<open>Lines 551 to 563: the identifier, the versions and the update document.\<close>

definition resolveId :: "'rsa node \<Rightarrow> 'rsa PackInput \<Rightarrow> 'rsa outcome" where
  "resolveId env opts =
     (if id' opts = Null then
        (case the_bytes (publicKey opts) of
           Inl e \<Rightarrow> Rejected e opts
         | Inr pub \<Rightarrow> Resolved (opts\<lparr>id' := Given (generateCrxId env pub)\<rparr>))
      else Resolved opts)"

definition resolveExtVersion :: "'rsa PackInput \<Rightarrow> 'rsa outcome" where
  "resolveExtVersion opts =
     (if extVersion opts = Null then
        (case manifest opts of
           Given m \<Rightarrow> Resolved (opts\<lparr>extVersion := Given (version m)\<rparr>)
         | _ \<Rightarrow> Rejected (Error ''manifest must be defined to generate extVersion'') opts)
      else Resolved opts)"

definition resolveMinChromeVersion :: "'rsa PackInput \<Rightarrow> 'rsa outcome" where
  "resolveMinChromeVersion opts =
     (if minChromeVersion opts = Null then
        (let declared = (case manifest opts of Given m \<Rightarrow> minimum_chrome_version m | _ \<Rightarrow> None);
             fallback = (if crxVersion opts = Some 3 \<or> crxVersion opts = None
                         then Given ''73.0.3683'' else Undefined)
         in Resolved (opts\<lparr>minChromeVersion :=
              (case declared of Some v \<Rightarrow> if v \<noteq> [] then Given v else fallback
               | None \<Rightarrow> fallback)\<rparr>))
      else Resolved opts)"

text \<open>A property inside a template string, and as an optional argument.\<close>

definition interpolate :: "string field \<Rightarrow> string" where
  "interpolate x = (case x of Given s \<Rightarrow> s | Null \<Rightarrow> ''null'' | Undefined \<Rightarrow> ''undefined'')"

definition resolveUpdateXML :: "'rsa PackInput \<Rightarrow> 'rsa outcome" where
  "resolveUpdateXML opts =
     (if updateXML opts = Null then
        Resolved (opts\<lparr>updateXML := Given (generateUpdateXML
          (interpolate (id' opts))
          (case crxUrl opts of Some u \<Rightarrow> u | None \<Rightarrow> ''undefined'')
          (interpolate (extVersion opts))
          (case minChromeVersion opts of Given v \<Rightarrow> Some v | _ \<Rightarrow> None))\<rparr>)
      else Resolved opts)"

definition pack :: "'rsa node \<Rightarrow> 'rsa PackInput \<Rightarrow> 'rsa outcome" where
  "pack env options =
     next_step (loadPrivateKey env options) (\<lambda>options.
     next_step (loadPublicKey env options) (\<lambda>options.
     next_step (requireForUpdateXML options) (\<lambda>options.
     next_step (requireForExtVersion options) (\<lambda>options.
     next_step (requireForMinChromeVersion options) (\<lambda>options.
     next_step (requireForCrx options) (\<lambda>options.
     next_step (requireForId options) (\<lambda>options.
     next_step (requireForPublicKey options) (\<lambda>options.
     next_step (generateKeys env options) (\<lambda>options.
     next_step (derivePublicKey env options) (\<lambda>options.
     next_step (loadContents env options) (\<lambda>options.
     next_step (resolveCrx env options) (\<lambda>options.
     next_step (resolveId env options) (\<lambda>options.
     next_step (resolveExtVersion options) (\<lambda>options.
     next_step (resolveMinChromeVersion options) (\<lambda>options.
     resolveUpdateXML options)))))))))))))))"

text \<open>
  \<open>beforeKeys\<close> is lines 490 to 534, the part of \<^verbatim>\<open>pack\<close> in front of the keys. \<^verbatim>\<open>pack\<close>
  generates a key pair (line 537) when it comes to line 536 and finds \<^verbatim>\<open>privateKey\<close>
  \<^verbatim>\<open>null\<close> there.
\<close>

definition beforeKeys :: "'rsa node \<Rightarrow> 'rsa PackInput \<Rightarrow> 'rsa outcome" where
  "beforeKeys env options =
     next_step (loadPrivateKey env options) (\<lambda>options.
     next_step (loadPublicKey env options) (\<lambda>options.
     next_step (requireForUpdateXML options) (\<lambda>options.
     next_step (requireForExtVersion options) (\<lambda>options.
     next_step (requireForMinChromeVersion options) (\<lambda>options.
     next_step (requireForCrx options) (\<lambda>options.
     next_step (requireForId options) (\<lambda>options.
     requireForPublicKey options)))))))"

definition generatesKeys :: "'rsa node \<Rightarrow> 'rsa PackInput \<Rightarrow> bool" where
  "generatesKeys env options =
     (case beforeKeys env options of
        Resolved options \<Rightarrow> privateKey options = Null
      | Rejected e options \<Rightarrow> False)"

subsection \<open>An example environment\<close>

text \<open>
  Collaborators for the examples: a fixed digest, an RSA instance that is a number, keys
  and a signature of a few bytes, one key file, and one directory with its manifest.
\<close>

definition example_node :: "nat node" where
  "example_node =
     \<lparr>sha256 = (\<lambda>d. 0x0123456789abcdef00112233445566778899aabbccddeeff0f1e2d3c4b5a6978),
      new_RSA = (\<lambda>k f. if k = [] then Inl (Thrown ''Error: no key'') else Inr 7),
      generate_RSA = (\<lambda>b. b),
      exportKey = (\<lambda>r f. Inr (if f = Pkcs8_private_der then [1, 2, 3] else [4, 5])),
      rsa_sign = (\<lambda>r s d. Inr [170, 187]),
      readFile = (\<lambda>p. if p = ''key.der'' then Inr [1, 2, 3]
                       else Inl (Thrown ''Error: ENOENT: no such file or directory'')),
      packContents = (\<lambda>p. Inr ([80, 75],
        \<lparr>manifest_version = 3, name = ''example'', version = ''1.0'',
           minimum_chrome_version = Some ''90.0''\<rparr>))\<rparr>"

definition example_input :: "nat PackInput" where
  "example_input =
     \<lparr>contents = None, privateKey = Undefined, keySize = None, publicKey = Undefined,
      rsa = None, id' = Undefined, crx = Undefined, crxVersion = None, crxUrl = None,
      updateXML = Undefined, extVersion = Undefined, minChromeVersion = Undefined,
      manifest = Undefined\<rparr>"

section \<open>Auxiliary facts\<close>

lemma andThen_Inr [simp]: "andThen (Inr x) f = f x"
  by (simp add: andThen_def)

lemma andThen_Inl [simp]: "andThen (Inl e) f = Inl e"
  by (simp add: andThen_def)

lemma kSignature_bytes: "kSignature = [67, 114, 50, 52]"
  by (simp add: kSignature_def charCodeAt_def)

text \<open>The test of the magic in \<open>unpack\<close>, by the shape of the buffer.\<close>

lemma magic_cases:
  "every kSignature (\<lambda>v i. andThen (getUint8 buf i) (\<lambda>b. Inr (b = v))) =
     (if \<not> prefix (take 4 buf) kSignature then Inr False
      else if length buf < 4 then Inl RangeError else Inr True)"
proof (cases buf)
  case Nil
  then show ?thesis by (simp add: every_def kSignature_bytes getUint8_def)
next
  case (Cons a as)
  note A = this
  show ?thesis
  proof (cases as)
    case Nil
    with A show ?thesis by (simp add: every_def kSignature_bytes getUint8_def)
  next
    case (Cons b bs)
    note B = this
    show ?thesis
    proof (cases bs)
      case Nil
      with A B show ?thesis by (simp add: every_def kSignature_bytes getUint8_def)
    next
      case (Cons c cs)
      with A B show ?thesis
        by (cases cs) (simp_all add: every_def kSignature_bytes getUint8_def)
    qed
  qed
qed

lemma magic_length: "take 4 buf = kSignature \<Longrightarrow> 4 \<le> length buf"
proof -
  assume "take 4 buf = kSignature"
  then have "length (take 4 buf) = 4" by (simp only: kSignature_bytes) simp
  then show ?thesis by simp
qed

lemma unpack_unfold:
  "unpack arr =
     andThen (every kSignature (\<lambda>v i. andThen (getUint8 (buffer arr) i) (\<lambda>b. Inr (b = v))))
      (\<lambda>ok.
      if ok then
        andThen (getUint32 (buffer arr) 4) (\<lambda>crxVersion.
        if crxVersion = 2 then
          andThen (getUint32 (buffer arr) 8) (\<lambda>keyLength.
          andThen (getUint32 (buffer arr) 12) (\<lambda>signLength.
          Inr (Crx2 (slice_from (elements arr) (16 + keyLength + signLength))
                    (slice (elements arr) 16 (16 + keyLength))
                    (slice (elements arr) (16 + keyLength) (16 + keyLength + signLength)))))
        else if crxVersion = 3 then
          andThen (getUint32 (buffer arr) 8) (\<lambda>headerLength.
          andThen (CrxFileHeader_read (slice (elements arr) 12 (12 + headerLength)))
            (\<lambda>decodedHeader.
             Inr (Crx3 (slice_from (elements arr) (12 + headerLength)) decodedHeader)))
        else Inl (Error ''The file given is not a valid CRX file''))
      else Inl (Error ''The file given is not a valid CRX file''))"
  unfolding unpack_def Let_def by (rule refl)

lemma elements_spans: "spans_buffer arr \<Longrightarrow> elements arr = buffer arr"
  by (simp add: spans_buffer_def elements_def)

lemma elements_whole [simp]: "elements (whole xs) = xs"
  by (simp add: elements_def whole_def)

lemma buffer_whole [simp]: "buffer (whole xs) = xs"
  by (simp add: whole_def)

lemma spans_buffer_whole [simp]: "spans_buffer (whole xs)"
  by (simp add: spans_buffer_def whole_def)

text \<open>Hexadecimal digits and the identifier.\<close>

lemma nibble_chars:
  "list_all (\<lambda>n. (case parseInt16 (digitChar n) of Some v \<Rightarrow> toString26 (v + 10)
                      | None \<Rightarrow> ''NaN'') = [''abcdefghijklmnop'' ! n]) [0..<16]"
  by (simp add: upt_rec digitChar_def parseInt16_def toString26.simps)

lemma nibble_char:
  assumes "n < 16"
  shows "(case parseInt16 (digitChar n) of Some v \<Rightarrow> toString26 (v + 10) | None \<Rightarrow> ''NaN'')
     = [''abcdefghijklmnop'' ! n]"
proof -
  from assms have "n \<in> set [0..<16]" by simp
  with nibble_chars show ?thesis unfolding list_all_iff by blast
qed

lemma digest_length: "length (digest env k) = 32"
  by (simp add: digest_def)

lemma concat_map_singleton: "concat (map (\<lambda>x. [f x]) xs) = map f xs"
  by (induction xs) simp_all

text \<open>The half-bytes of a byte string, high half first.\<close>

definition nibbles :: "bytes \<Rightarrow> nat list" where
  "nibbles bs = concat (map (\<lambda>b. [unat b div 16, unat b mod 16]) bs)"

lemma toString_hex_nibbles: "toString_hex bs = map digitChar (nibbles bs)"
  by (induction bs) (simp_all add: toString_hex_def nibbles_def)

lemma nibbles_lt: "v \<in> set (nibbles bs) \<Longrightarrow> v < 16"
proof -
  assume "v \<in> set (nibbles bs)"
  then obtain b :: byte where "v = unat b div 16 \<or> v = unat b mod 16"
    by (auto simp: nibbles_def)
  moreover have "unat b < 256" using unsigned_less [of b, where 'a = nat] by simp
  ultimately show ?thesis by auto
qed

lemma length_nibbles: "length (nibbles bs) = 2 * length bs"
  by (induction bs) (simp_all add: nibbles_def)

lemma nth_nibbles:
  "i < 2 * length bs \<Longrightarrow>
   nibbles bs ! i = (if even i then unat (bs ! (i div 2)) div 16 else unat (bs ! (i div 2)) mod 16)"
proof (induction bs arbitrary: i)
  case Nil
  then show ?case by simp
next
  case (Cons b bs)
  show ?case
  proof (cases "i < 2")
    case True
    then have "i = 0 \<or> i = 1" by auto
    then show ?thesis by (auto simp: nibbles_def)
  next
    case False
    then obtain j where j: "i = Suc (Suc j)"
      by (metis Suc_lessI less_2_cases_iff not0_implies_Suc numeral_2_eq_2)
    with Cons.prems have "j < 2 * length bs" by simp
    from Cons.IH [OF this] j show ?thesis
      by (simp add: nibbles_def)
  qed
qed

lemma generateCrxId_nibbles:
  "generateCrxId env k = map (\<lambda>v. ''abcdefghijklmnop'' ! v) (take 32 (nibbles (digest env k)))"
proof -
  have "map (\<lambda>x. case parseInt16 x of Some v \<Rightarrow> toString26 (v + 10) | None \<Rightarrow> ''NaN'')
          (toString_hex (digest env k))
        = map (\<lambda>v. [''abcdefghijklmnop'' ! v]) (nibbles (digest env k))"
    by (simp add: toString_hex_nibbles nibble_char nibbles_lt)
  then show ?thesis
    by (simp add: generateCrxId_def concat_map_singleton take_map)
qed

text \<open>Reading back what the writer of pbf wrote.\<close>

lemma byte_and_127: "unat ((b::byte) AND 127) = unat b mod 128"
proof -
  have "b AND 127 = take_bit 7 b" by (simp add: take_bit_eq_mask mask_eq_exp_minus_1)
  then have "unat (b AND 127) = take_bit 7 (unat b)" by (simp add: unsigned_take_bit_eq)
  then show ?thesis by (simp add: take_bit_eq_mod)
qed

lemma byte_and_1: "unat ((b::byte) AND 1) = unat b mod 2"
proof -
  have "b AND 1 = take_bit 1 b" by (simp add: take_bit_eq_mask mask_eq_exp_minus_1)
  then have "unat (b AND 1) = take_bit 1 (unat b)" by (simp only: unsigned_take_bit_eq)
  then show ?thesis by (simp add: take_bit_eq_mod)
qed

lemma unat_byte_of_nat: "n < 256 \<Longrightarrow> unat (of_nat n :: byte) = n"
  by (simp add: unat_of_nat)

lemma byte_less_iff: "((b::byte) < 128) = (unat b < 128)"
  by (simp add: word_less_nat_alt)

lemma varint_nonempty: "varint n \<noteq> []"
  by (subst varint.simps) simp

lemma varint_small: "n < 128 \<Longrightarrow> varint n = [of_nat n]"
  by (subst varint.simps) simp

lemma varint_large: "\<not> n < 128 \<Longrightarrow> varint n = of_nat (n mod 128 + 128) # varint (n div 128)"
  by (subst varint.simps) simp

lemma readVarint_bytes_varint:
  assumes "drop pos buf = varint n @ rest" and "n < 2 ^ (7 * m)"
    and "length buf \<le> 9007199254740991"
  shows "readVarint_bytes (Suc m) shift buf pos = Inr (n * 2 ^ shift, pos + length (varint n))"
  using assms
proof (induction m arbitrary: n pos shift)
  case 0
  then have n: "n = 0" by simp
  with "0.prems" have d: "drop pos buf = 0 # rest" by (simp add: varint_small)
  then have "pos < length buf" by (metis drop_all linorder_not_less list.distinct(1))
  with d "0.prems"(3) have "at buf pos = Some 0"
    by (simp add: at_def) (metis nth_via_drop)
  with n show ?case by (simp add: varint_small)
next
  case (Suc m)
  show ?case
  proof (cases "n < 128")
    case True
    with Suc.prems have d: "drop pos buf = of_nat n # rest" by (simp add: varint_small)
    then have "pos < length buf" by (metis drop_all linorder_not_less list.distinct(1))
    with d Suc.prems(3) have a: "at buf pos = Some (of_nat n)"
      by (simp add: at_def) (metis nth_via_drop)
    from True have "unat (of_nat n :: byte) = n" by (simp add: unat_byte_of_nat)
    with a True show ?thesis
      by (simp add: varint_small byte_less_iff byte_and_127)
  next
    case False
    let ?b = "of_nat (n mod 128 + 128) :: byte"
    from False Suc.prems have d: "drop pos buf = ?b # varint (n div 128) @ rest"
      by (simp add: varint_large)
    then have lt: "pos < length buf" by (metis drop_all linorder_not_less list.distinct(1))
    with d Suc.prems(3) have a: "at buf pos = Some ?b"
      by (simp add: at_def) (metis nth_via_drop)
    have ub: "unat ?b = n mod 128 + 128" by (rule unat_byte_of_nat) simp
    from d have d': "drop (pos + 1) buf = varint (n div 128) @ rest"
      by (metis Suc_eq_plus1 drop_Suc drop_drop list.sel(3) tl_drop add.commute)
    from Suc.prems(2) have "n div 128 < 2 ^ (7 * m)"
      by (simp add: less_mult_imp_div_less power_add mult.commute)
    from Suc.IH [OF d' this Suc.prems(3)]
    have "readVarint_bytes (Suc m) (shift + 7) buf (pos + 1)
            = Inr (n div 128 * 2 ^ (shift + 7), pos + 1 + length (varint (n div 128)))" .
    moreover have "n mod 128 * 2 ^ shift + n div 128 * 2 ^ (shift + 7) = n * 2 ^ shift"
    proof -
      have "n div 128 * 2 ^ (shift + 7) = (128 * (n div 128)) * 2 ^ shift"
        by (simp add: power_add)
      then have "n mod 128 * 2 ^ shift + n div 128 * 2 ^ (shift + 7)
            = (n mod 128 + 128 * (n div 128)) * 2 ^ shift"
        by (simp only: add_mult_distrib)
      also have "n mod 128 + 128 * (n div 128) = n" by simp
      finally show ?thesis .
    qed
    ultimately show ?thesis using a ub False
      by (simp add: varint_large byte_less_iff byte_and_127 Let_def)
  qed
qed

lemma readVarint_drop:
  assumes "drop pos buf = varint n @ rest" and "n < 9007199254740992"
    and "length buf \<le> 9007199254740991"
  shows "readVarint buf pos = Inr (n, pos + length (varint n))"
proof -
  from assms(2) have "n < 2 ^ (7 * 9)" by simp
  from readVarint_bytes_varint [OF assms(1) this assms(3), of 0] assms(2)
  show ?thesis by (simp add: readVarint_def toDouble_small)
qed

lemma drop_length_le:
  "drop pos buf = xs @ rest \<Longrightarrow> xs \<noteq> [] \<Longrightarrow> pos + length xs \<le> length buf"
proof -
  assume "drop pos buf = xs @ rest" and "xs \<noteq> []"
  then have "length (drop pos buf) = length xs + length rest" and "0 < length xs" by simp_all
  then show ?thesis by (cases "pos \<le> length buf") auto
qed

lemma length_varint_pos [simp]: "0 < length (varint n)"
  by (subst varint.simps) simp

lemma drop_drop_append:
  "drop pos buf = xs @ rest \<Longrightarrow> drop (pos + length xs) buf = rest"
  by (metis append_eq_conv_conj drop_drop add.commute)

lemma readBytes_drop:
  assumes "drop pos buf = varint (length d) @ d @ rest"
    and "length buf \<le> 9007199254740991"
  shows "readBytes buf pos = Inr (d, pos + length (varint (length d)) + length d)"
proof -
  let ?p = "pos + length (varint (length d))"
  from assms(1) have "drop pos buf = (varint (length d) @ d) @ rest" by simp
  from drop_length_le [OF this] have le: "?p + length d \<le> length buf"
    by (simp add: varint_nonempty)
  with assms(2) have small: "length d < 9007199254740992" "length d + ?p < 9007199254740992"
    by simp_all
  have rv: "readVarint buf pos = Inr (length d, ?p)"
    by (rule readVarint_drop [OF assms(1) small(1) assms(2)])
  have "drop ?p buf = d @ rest" by (rule drop_drop_append [OF assms(1)])
  then have "slice buf ?p (length d + ?p) = d" by (simp add: slice_def)
  with rv small show ?thesis
    by (simp add: readBytes_def toDouble_small Let_def add.commute)
qed

lemma varint_10: "varint 10 = [10]" and varint_18: "varint 18 = [18]"
  and varint_16: "varint 16 = [16]" and varint_80002: "varint 80002 = [130, 241, 4]"
  by (simp_all add: varint.simps)

lemma toInt32_small: "n < 2147483648 \<Longrightarrow> toInt32 n = int n"
  by (simp add: toInt32_def Let_def)

lemma writeBytesField_bytes:
  "writeBytesField tag d pbf = pbf @ varint (tag * 8 + 2) @ varint (length d) @ d"
  by (simp add: writeBytesField_def writeBytes_def writeTag_def PBF_BYTES_def)

lemma AsymmetricKeyProof_write_bytes:
  "AsymmetricKeyProof_write \<lparr>public_key = Some pk, signature = Some sg\<rparr> pbf =
     pbf @ [10] @ varint (length pk) @ pk @ [18] @ varint (length sg) @ sg"
  by (simp add: AsymmetricKeyProof_write_def writeBytesField_bytes varint_10 varint_18)

lemma AsymmetricKeyProof_readFields_written:
  assumes d: "drop pos buf = [10] @ varint (length pk) @ pk @ [18] @ varint (length sg) @ sg @ rest"
    and len: "length buf \<le> 9007199254740991"
    and e: "e = pos + (2 + length (varint (length pk)) + length pk
                        + length (varint (length sg)) + length sg)"
  shows "AsymmetricKeyProof_readFields buf e \<lparr>public_key = None, signature = None\<rparr> pos =
           Inr (\<lparr>public_key = Some pk, signature = Some sg\<rparr>, e)"
proof -
  define p0 where "p0 = pos + 1"
  define p1 where "p1 = p0 + length (varint (length pk)) + length pk"
  define p2 where "p2 = p1 + 1"
  let ?rest1 = "[18] @ varint (length sg) @ sg @ rest"
  from d have d0: "drop pos buf = varint 10 @ (varint (length pk) @ pk @ ?rest1)"
    by (simp add: varint_10)
  have t1: "readVarint buf pos = Inr (10, p0)"
    using readVarint_drop [OF d0 _ len] by (simp add: varint_10 p0_def)
  have d1: "drop p0 buf = varint (length pk) @ pk @ ?rest1"
    using drop_drop_append [OF d0] by (simp add: varint_10 p0_def)
  have b1: "readBytes buf p0 = Inr (pk, p1)"
    using readBytes_drop [OF d1 len] by (simp add: p1_def)
  from d1 have "drop p0 buf = (varint (length pk) @ pk) @ ?rest1" by simp
  from drop_drop_append [OF this]
  have d2: "drop p1 buf = varint 18 @ (varint (length sg) @ sg @ rest)"
    by (simp add: varint_18 add.assoc p1_def)
  have t2: "readVarint buf p1 = Inr (18, p2)"
    using readVarint_drop [OF d2 _ len] by (simp add: varint_18 p2_def)
  have d3: "drop p2 buf = varint (length sg) @ sg @ rest"
    using drop_drop_append [OF d2] by (simp add: varint_18 p2_def)
  have b2: "readBytes buf p2 = Inr (sg, e)"
    using readBytes_drop [OF d3 len] by (simp add: e p2_def p1_def p0_def add.assoc)
  have lt: "pos < e" "p1 < e" "p1 \<noteq> p0" "e \<noteq> p2"
    using length_varint_pos [of "length pk"] length_varint_pos [of "length sg"]
    by (simp_all add: e p2_def p1_def p0_def)
  have s3: "AsymmetricKeyProof_readFields buf e \<lparr>public_key = Some pk, signature = Some sg\<rparr> e
              = Inr (\<lparr>public_key = Some pk, signature = Some sg\<rparr>, e)"
    by (simp add: AsymmetricKeyProof_readFields.simps [of buf e _ e])
  have s2: "AsymmetricKeyProof_readFields buf e \<lparr>public_key = Some pk, signature = None\<rparr> p1
              = Inr (\<lparr>public_key = Some pk, signature = Some sg\<rparr>, e)"
    using lt t2 b2 s3
    by (simp add: AsymmetricKeyProof_readFields.simps [of buf e _ p1]
          AsymmetricKeyProof_readField_def toInt32_small)
  show ?thesis
    using lt t1 b1 s2
    by (simp add: AsymmetricKeyProof_readFields.simps [of buf e _ pos]
          AsymmetricKeyProof_readField_def toInt32_small)
qed

lemma length_varint_le: "n < 2 ^ (7 * Suc k) \<Longrightarrow> length (varint n) \<le> Suc k"
proof (induction k arbitrary: n)
  case 0
  then show ?case by (simp add: varint_small)
next
  case (Suc k)
  show ?case
  proof (cases "n < 128")
    case True
    then show ?thesis by (simp add: varint_small)
  next
    case False
    from Suc.prems have "n div 128 < 2 ^ (7 * Suc k)"
      by (simp add: less_mult_imp_div_less power_add mult.commute)
    from Suc.IH [OF this] False show ?thesis by (simp add: varint_large)
  qed
qed

lemma length_varint_le5: "n < 4294967296 \<Longrightarrow> length (varint n) \<le> 5"
  using length_varint_le [of n 4] by simp

lemma writeMessage_AsymmetricKeyProof:
  "writeMessage tag AsymmetricKeyProof_write \<lparr>public_key = Some pk, signature = Some sg\<rparr> pbf =
     pbf @ varint (tag * 8 + 2)
       @ varint (length ([10] @ varint (length pk) @ pk @ [18] @ varint (length sg) @ sg))
       @ [10] @ varint (length pk) @ pk @ [18] @ varint (length sg) @ sg"
  by (simp add: writeMessage_def writeTag_def PBF_BYTES_def Let_def AsymmetricKeyProof_write_bytes)

lemma CrxFileHeader_write_bytes:
  "CrxFileHeader_write
     \<lparr>sha256_with_rsa = Some [\<lparr>public_key = Some pk, signature = Some sg\<rparr>],
      sha256_with_ecdsa = None, signed_header_data = Some shd\<rparr> [] =
     [18] @ varint (length ([10] @ varint (length pk) @ pk @ [18] @ varint (length sg) @ sg))
       @ ([10] @ varint (length pk) @ pk @ [18] @ varint (length sg) @ sg)
       @ [130, 241, 4] @ varint (length shd) @ shd"
  by (simp add: CrxFileHeader_write_def writeMessage_AsymmetricKeyProof writeBytesField_bytes
        varint_18 varint_80002)

lemma CrxFileHeader_read_written:
  assumes h: "h = [18] @ varint (length body) @ body @ [130, 241, 4] @ varint (length shd) @ shd"
    and body: "body = [10] @ varint (length pk) @ pk @ [18] @ varint (length sg) @ sg"
    and len: "length h \<le> 9007199254740991"
  shows "CrxFileHeader_read h =
           Inr \<lparr>sha256_with_rsa = Some [\<lparr>public_key = Some pk, signature = Some sg\<rparr>],
                sha256_with_ecdsa = Some [], signed_header_data = Some shd\<rparr>"
proof -
  define p0 :: nat where "p0 = 1"
  define p1 where "p1 = p0 + length (varint (length body))"
  define p2 where "p2 = p1 + length body"
  define p3 where "p3 = p2 + 3"
  define e where "e = length h"
  let ?init = "\<lparr>sha256_with_rsa = Some [], sha256_with_ecdsa = Some [], signed_header_data = None\<rparr>"
  let ?mid = "\<lparr>sha256_with_rsa = Some [\<lparr>public_key = Some pk, signature = Some sg\<rparr>],
               sha256_with_ecdsa = Some [], signed_header_data = None\<rparr>"
  let ?fin = "\<lparr>sha256_with_rsa = Some [\<lparr>public_key = Some pk, signature = Some sg\<rparr>],
               sha256_with_ecdsa = Some [], signed_header_data = Some shd\<rparr>"
  let ?tail = "[130, 241, 4] @ varint (length shd) @ shd"
  have hl: "length body \<le> length h" "p2 \<le> length h"
    by (simp_all add: h p2_def p1_def p0_def)
  with len have small: "length body < 9007199254740992" "length body + p1 < 9007199254740992"
    by (simp_all add: p2_def)
  have d0: "drop 0 h = varint 18 @ (varint (length body) @ body @ ?tail)"
    by (simp add: h varint_18)
  have t1: "readVarint h 0 = Inr (18, p0)"
    using readVarint_drop [OF d0 _ len] by (simp add: varint_18 p0_def)
  have d1: "drop p0 h = varint (length body) @ (body @ ?tail)"
    using drop_drop_append [OF d0] by (simp add: varint_18 p0_def)
  have l1: "readVarint h p0 = Inr (length body, p1)"
    using readVarint_drop [OF d1 small(1) len] by (simp add: p1_def)
  have d2: "drop p1 h = [10] @ varint (length pk) @ pk @ [18] @ varint (length sg) @ sg @ ?tail"
    using drop_drop_append [OF d1] by (simp add: p1_def body)
  have m1: "AsymmetricKeyProof_readFields h p2 \<lparr>public_key = None, signature = None\<rparr> p1
              = Inr (\<lparr>public_key = Some pk, signature = Some sg\<rparr>, p2)"
    by (rule AsymmetricKeyProof_readFields_written [OF d2 len]) (simp add: p2_def body)
  from d1 have "drop p0 h = (varint (length body) @ body) @ ?tail" by simp
  from drop_drop_append [OF this]
  have d3: "drop p2 h = varint 80002 @ (varint (length shd) @ shd)"
    by (simp add: p2_def p1_def varint_80002 add.assoc)
  have t2: "readVarint h p2 = Inr (80002, p3)"
    using readVarint_drop [OF d3 _ len] by (simp add: varint_80002 p3_def)
  have l3: "length (varint 80002) = 3" by (simp add: varint_80002)
  have d4: "drop p3 h = varint (length shd) @ shd @ []"
    using drop_drop_append [OF d3] by (simp only: l3 p3_def append_Nil2)
  have b2: "readBytes h p3 = Inr (shd, e)"
    using readBytes_drop [OF d4 len]
    by (simp add: e_def h p3_def p2_def p1_def p0_def add.assoc)
  have lt: "0 < e" "p2 < e" "p2 \<noteq> p0" "e \<noteq> p3"
    using length_varint_pos [of "length body"] length_varint_pos [of "length shd"]
    by (simp_all add: e_def h p3_def p2_def p1_def p0_def)
  have s3: "CrxFileHeader_readFields h e ?fin e = Inr (?fin, e)"
    by (simp add: CrxFileHeader_readFields.simps [of h e _ e])
  have s2: "CrxFileHeader_readFields h e ?mid p2 = Inr (?fin, e)"
    using lt t2 b2 s3
    by (simp add: CrxFileHeader_readFields.simps [of h e _ p2]
          CrxFileHeader_readField_def toInt32_small)
  have s1: "CrxFileHeader_readFields h e ?init 0 = Inr (?fin, e)"
    using lt t1 l1 m1 s2 small
    by (simp add: CrxFileHeader_readFields.simps [of h e _ 0] CrxFileHeader_readField_def
          toInt32_small AsymmetricKeyProof_read_def toDouble_small push_def p2_def add.commute)
  then show ?thesis by (simp add: CrxFileHeader_read_def e_def)
qed

lemma SignedData_write_bytes:
  "SignedData_write \<lparr>crx_id = Some i\<rparr> [] = [10] @ varint (length i) @ i"
  by (simp add: SignedData_write_def writeBytesField_bytes varint_10)

lemma SignedData_read_written:
  assumes "length i \<le> 9007199254740000"
  shows "SignedData_read ([10] @ varint (length i) @ i) = Inr \<lparr>crx_id = Some i\<rparr>"
proof -
  define h where "h = [10] @ varint (length i) @ i"
  define e where "e = length h"
  define p0 :: nat where "p0 = 1"
  have "length (varint (length i)) \<le> 9"
    using length_varint_le [of "length i" 8] assms by simp
  with assms have len: "length h \<le> 9007199254740991" by (simp add: h_def)
  have d0: "drop 0 h = varint 10 @ (varint (length i) @ i)" by (simp add: varint_10 h_def)
  have t1: "readVarint h 0 = Inr (10, p0)"
    using readVarint_drop [OF d0 _ len] by (simp add: varint_10 p0_def)
  have d1: "drop p0 h = varint (length i) @ i @ []"
    using drop_drop_append [OF d0] by (simp add: varint_10 p0_def)
  have b1: "readBytes h p0 = Inr (i, e)"
    using readBytes_drop [OF d1 len] by (simp add: e_def p0_def h_def)
  have lt: "0 < e" "e \<noteq> p0"
    using length_varint_pos [of "length i"] by (simp_all add: e_def p0_def h_def)
  have s2: "SignedData_readFields h e \<lparr>crx_id = Some i\<rparr> e = Inr (\<lparr>crx_id = Some i\<rparr>, e)"
    by (simp add: SignedData_readFields.simps [of h e _ e])
  have "SignedData_readFields h e \<lparr>crx_id = None\<rparr> 0 = Inr (\<lparr>crx_id = Some i\<rparr>, e)"
    using lt t1 b1 s2
    by (simp add: SignedData_readFields.simps [of h e _ 0] SignedData_readField_def toInt32_small)
  then show ?thesis by (simp add: SignedData_read_def e_def h_def)
qed

lemma length_le32 [simp]: "length (le32 v) = 4"
  by (simp add: le32_def)

lemma u8set_first:
  "length src \<le> n \<Longrightarrow>
   u8set (new_Uint8Array n) src 0 = Inr (src @ replicate (n - length src) 0)"
  by (simp add: u8set_def new_Uint8Array_def)

lemma u8set_next:
  "length pre = off \<Longrightarrow> length src \<le> n \<Longrightarrow>
   u8set (pre @ replicate n 0) src off = Inr ((pre @ src) @ replicate (n - length src) 0)"
  by (simp add: u8set_def)

lemma setUint32_next:
  "length pre = off \<Longrightarrow> 4 \<le> n \<Longrightarrow>
   setUint32 (pre @ replicate n 0) off v = Inr ((pre @ le32 v) @ replicate (n - 4) 0)"
  by (simp add: setUint32_def)

lemma length_kSignature [simp]: "length kSignature = 4"
  by (simp add: kSignature_bytes)

lemma length_kVersion [simp]: "length kVersion = 4"
  by (simp add: kVersion_def)

lemma packCrx3_container:
  "packCrx3 env priv pub c r =
     andThen (generateCrx3Signature env priv
                (SignedData_write \<lparr>crx_id = Some (generateBinaryCrxId env pub)\<rparr> []) c r)
       (\<lambda>sg. let header = CrxFileHeader_write
                     \<lparr>sha256_with_rsa = Some [\<lparr>public_key = Some pub, signature = Some sg\<rparr>],
                      sha256_with_ecdsa = None,
                      signed_header_data =
                        Some (SignedData_write \<lparr>crx_id = Some (generateBinaryCrxId env pub)\<rparr> [])\<rparr> []
               in Inr (kSignature @ kVersion @ le32 (length header) @ header @ c))"
proof (cases "generateCrx3Signature env priv
                (SignedData_write \<lparr>crx_id = Some (generateBinaryCrxId env pub)\<rparr> []) c r")
  case (Inl e)
  then show ?thesis by (simp add: packCrx3_def Let_def)
next
  case (Inr sg)
  then show ?thesis
    by (simp add: packCrx3_def Let_def u8set_first u8set_next setUint32_next SIZE_BYTES_def
          del: append_assoc)
qed

lemma generateCrx3Signature_payload:
  "generateCrx3Signature env priv shd c r =
     andThen (rsa_or_new env r priv) (\<lambda>k.
       rsa_sign env k Pkcs1_sha256 (kSignatureContext @ le32 (length shd) @ shd @ c))"
  by (simp add: generateCrx3Signature_def setUint32_def new_Uint8Array_def SIZE_BYTES_def Let_def)

lemma length_generateBinaryCrxId: "length (generateBinaryCrxId env pub) = 16"
  by (simp add: generateBinaryCrxId_def slice_def CRX_ID_SIZE_def digest_length)

lemma generateBinaryCrxId_take: "generateBinaryCrxId env pub = take 16 (digest env pub)"
  by (simp add: generateBinaryCrxId_def slice_def CRX_ID_SIZE_def)

lemma getUint32_le32:
  "getUint32 (pre @ le32 v @ rest) (length pre) = Inr (v mod 4294967296)"
proof -
  have u: "unat (of_nat n :: byte) = n mod 256" for n by (simp add: unat_of_nat)
  have a: "v mod 4294967296 = 256 * (v div 256 mod 16777216) + v mod 256"
    using mod_mult2_eq [of v 256 16777216] by simp
  have d1: "v div 256 div 256 = v div 65536"
    using div_mult2_eq [of v 256 256] by simp
  have d2: "v div 65536 div 256 = v div 16777216"
    using div_mult2_eq [of v 65536 256] by simp
  have b: "v div 256 mod 16777216 = 256 * (v div 65536 mod 65536) + v div 256 mod 256"
    using mod_mult2_eq [of "v div 256" 256 65536] by (simp add: d1)
  have c: "v div 65536 mod 65536 = 256 * (v div 16777216 mod 256) + v div 65536 mod 256"
    using mod_mult2_eq [of "v div 65536" 256 256] by (simp add: d2)
  have "v mod 256 + 256 * (v div 256 mod 256) + 65536 * (v div 65536 mod 256)
          + 16777216 * (v div 16777216 mod 256) = v mod 4294967296"
    by (simp only: a b c) simp
  then show ?thesis
    by (simp add: getUint32_def le32_def nth_append u)
qed

lemma kSignatureContext_bytes:
  "kSignatureContext = [67, 82, 88, 51, 32, 83, 105, 103, 110, 101, 100, 68, 97, 116, 97, 0]"
  by (simp add: kSignatureContext_def charCodeAt_def)

lemma digest_example:
  "digest example_node k =
     [1, 35, 69, 103, 137, 171, 205, 239, 0, 17, 34, 51, 68, 85, 102, 119, 136, 153, 170, 187,
      204, 221, 238, 255, 15, 30, 45, 60, 75, 90, 105, 120]"
  by (simp add: digest_def example_node_def upt_rec drop_bit_eq_div)

lemma length_CrxFileHeader_written:
  assumes "length pk + length sg < 4294967256" and "length shd = 18"
  shows "length (CrxFileHeader_write
           \<lparr>sha256_with_rsa = Some [\<lparr>public_key = Some pk, signature = Some sg\<rparr>],
            sha256_with_ecdsa = None, signed_header_data = Some shd\<rparr> []) < 4294967296"
proof -
  define body where "body = [10] @ varint (length pk) @ pk @ [18] @ varint (length sg) @ sg"
  have hb: "CrxFileHeader_write
           \<lparr>sha256_with_rsa = Some [\<lparr>public_key = Some pk, signature = Some sg\<rparr>],
            sha256_with_ecdsa = None, signed_header_data = Some shd\<rparr> []
          = [18] @ varint (length body) @ body @ [130, 241, 4] @ varint (length shd) @ shd"
    unfolding body_def by (rule CrxFileHeader_write_bytes)
  have lb: "length body = 2 + length (varint (length pk)) + length pk
                          + length (varint (length sg)) + length sg"
    by (simp add: body_def)
  from assms have v1: "length (varint (length pk)) \<le> 5" and v2: "length (varint (length sg)) \<le> 5"
    by (simp_all add: length_varint_le5)
  from lb v1 v2 assms have "length body < 4294967296" by simp
  then have v3: "length (varint (length body)) \<le> 5" by (rule length_varint_le5)
  have v4: "length (varint (length shd)) = 1" by (simp add: assms(2) varint_18)
  from lb v1 v2 v3 v4 assms show ?thesis unfolding hb by simp
qed

text \<open>The steps of \<open>pack\<close>, one after the other.\<close>

lemma next_step_Resolved [simp]: "next_step (Resolved opts) f = f opts"
  by (simp add: next_step_def)

lemma next_step_Rejected [simp]: "next_step (Rejected e opts) f = Rejected e opts"
  by (simp add: next_step_def)

lemma next_step_inv:
  "P (options_after r) \<Longrightarrow> (\<And>opts. P opts \<Longrightarrow> P (options_after (f opts))) \<Longrightarrow>
   P (options_after (next_step r f))"
  by (cases r) simp_all

lemmas step_defs =
  loadPrivateKey_def loadPublicKey_def requireForUpdateXML_def requireForExtVersion_def
  requireForMinChromeVersion_def requireForCrx_def requireForId_def requireForPublicKey_def
  generateKeys_def derivePublicKey_def loadContents_def resolveCrx_def resolveId_def
  resolveExtVersion_def resolveMinChromeVersion_def resolveUpdateXML_def

lemma pack_invariant:
  assumes "P opts"
    and "\<And>opts. P opts \<Longrightarrow> P (options_after (loadPrivateKey env opts))"
    and "\<And>opts. P opts \<Longrightarrow> P (options_after (loadPublicKey env opts))"
    and "\<And>opts. P opts \<Longrightarrow> P (options_after (requireForUpdateXML opts))"
    and "\<And>opts. P opts \<Longrightarrow> P (options_after (requireForExtVersion opts))"
    and "\<And>opts. P opts \<Longrightarrow> P (options_after (requireForMinChromeVersion opts))"
    and "\<And>opts. P opts \<Longrightarrow> P (options_after (requireForCrx opts))"
    and "\<And>opts. P opts \<Longrightarrow> P (options_after (requireForId opts))"
    and "\<And>opts. P opts \<Longrightarrow> P (options_after (requireForPublicKey opts))"
    and "\<And>opts. P opts \<Longrightarrow> P (options_after (generateKeys env opts))"
    and "\<And>opts. P opts \<Longrightarrow> P (options_after (derivePublicKey env opts))"
    and "\<And>opts. P opts \<Longrightarrow> P (options_after (loadContents env opts))"
    and "\<And>opts. P opts \<Longrightarrow> P (options_after (resolveCrx env opts))"
    and "\<And>opts. P opts \<Longrightarrow> P (options_after (resolveId env opts))"
    and "\<And>opts. P opts \<Longrightarrow> P (options_after (resolveExtVersion opts))"
    and "\<And>opts. P opts \<Longrightarrow> P (options_after (resolveMinChromeVersion opts))"
    and "\<And>opts. P opts \<Longrightarrow> P (options_after (resolveUpdateXML opts))"
  shows "P (options_after (pack env opts))"
  unfolding pack_def
  by (intro next_step_inv [where P = P] assms)

lemma next_step_same:
  "(\<And>opts. r = Resolved opts \<Longrightarrow> f opts = g opts) \<Longrightarrow> next_step r f = next_step r g"
  by (cases r) simp_all

lemma next_step_Resolved_iff:
  "next_step r f = Resolved opts' \<longleftrightarrow> (\<exists>opts. r = Resolved opts \<and> f opts = Resolved opts')"
  by (cases r) simp_all

lemma loads_keep:
  "crx (options_after (loadPrivateKey env opts)) = crx opts"
  "contents (options_after (loadPrivateKey env opts)) = contents opts"
  "updateXML (options_after (loadPrivateKey env opts)) = updateXML opts"
  "crxUrl (options_after (loadPrivateKey env opts)) = crxUrl opts"
  "crx (options_after (loadPublicKey env opts)) = crx opts"
  "contents (options_after (loadPublicKey env opts)) = contents opts"
  "updateXML (options_after (loadPublicKey env opts)) = updateXML opts"
  "crxUrl (options_after (loadPublicKey env opts)) = crxUrl opts"
  by (auto simp: loadPrivateKey_def loadPublicKey_def Let_def
           split: field.splits blob.splits option.splits sum.splits)

lemma loads_generate:
  "loadPrivateKey (env\<lparr>generate_RSA := g\<rparr>) opts = loadPrivateKey env opts"
  "loadPublicKey (env\<lparr>generate_RSA := g\<rparr>) opts = loadPublicKey env opts"
  by (simp_all add: loadPrivateKey_def loadPublicKey_def Let_def
        cong: field.case_cong blob.case_cong sum.case_cong option.case_cong if_cong)

text \<open>With the container requested and no contents, what follows line 528 is never run.\<close>

lemma pack_front:
  assumes "crx opts = Null" and "contents opts = None"
  shows "next_step (loadPrivateKey env opts) (\<lambda>options.
         next_step (loadPublicKey env options) (\<lambda>options.
         next_step (requireForUpdateXML options) (\<lambda>options.
         next_step (requireForExtVersion options) (\<lambda>options.
         next_step (requireForMinChromeVersion options) (\<lambda>options.
         next_step (requireForCrx options) K)))))
       = next_step (loadPrivateKey env opts) (\<lambda>options.
         next_step (loadPublicKey env options) (\<lambda>options.
         next_step (requireForUpdateXML options) (\<lambda>options.
         next_step (requireForExtVersion options) (\<lambda>options.
         next_step (requireForMinChromeVersion options) (\<lambda>options.
         Rejected (Error ''contents must be defined to generate crx'') options)))))"
proof (intro next_step_same)
  fix o1 o2 o3 o4 o5
  assume 1: "loadPrivateKey env opts = Resolved o1" and 2: "loadPublicKey env o1 = Resolved o2"
    and 3: "requireForUpdateXML o2 = Resolved o3" and 4: "requireForExtVersion o3 = Resolved o4"
    and 5: "requireForMinChromeVersion o4 = Resolved o5"
  from assms loads_keep(1,2) [of env opts] 1 have "crx o1 = Null \<and> contents o1 = None" by simp
  with loads_keep(5,6) [of env o1] 2 have "crx o2 = Null \<and> contents o2 = None" by simp
  with 3 have "crx o3 = Null \<and> contents o3 = None"
    by (auto simp: requireForUpdateXML_def split: if_splits)
  with 4 have "crx o4 = Null \<and> contents o4 = None"
    by (auto simp: requireForExtVersion_def split: if_splits)
  with 5 have "crx o5 = Null \<and> contents o5 = None"
    by (auto simp: requireForMinChromeVersion_def split: if_splits)
  then show "next_step (requireForCrx o5) K
               = Rejected (Error ''contents must be defined to generate crx'') o5"
    by (simp add: requireForCrx_def)
qed

lemma next_step_rejects:
  "(\<And>opts. \<exists>e after. f opts = Rejected e after) \<Longrightarrow> \<exists>e after. next_step r f = Rejected e after"
  by (cases r) simp_all

lemma pack_without_contents:
  assumes "crx opts = Null" and "contents opts = None"
  shows "pack env opts =
         next_step (loadPrivateKey env opts) (\<lambda>options.
         next_step (loadPublicKey env options) (\<lambda>options.
         next_step (requireForUpdateXML options) (\<lambda>options.
         next_step (requireForExtVersion options) (\<lambda>options.
         next_step (requireForMinChromeVersion options) (\<lambda>options.
         Rejected (Error ''contents must be defined to generate crx'') options)))))"
  unfolding pack_def by (rule pack_front [OF assms])

text \<open>Up to line 557 a requested \<open>minChromeVersion\<close> stays requested.\<close>

lemma minChromeVersion_requested:
  assumes "minChromeVersion opts = Null \<and> crxVersion opts = cv"
  shows "minChromeVersion (options_after (loadPrivateKey env opts)) = Null
         \<and> crxVersion (options_after (loadPrivateKey env opts)) = cv"
    and "minChromeVersion (options_after (loadPublicKey env opts)) = Null
         \<and> crxVersion (options_after (loadPublicKey env opts)) = cv"
    and "minChromeVersion (options_after (requireForUpdateXML opts)) = Null
         \<and> crxVersion (options_after (requireForUpdateXML opts)) = cv"
    and "minChromeVersion (options_after (requireForExtVersion opts)) = Null
         \<and> crxVersion (options_after (requireForExtVersion opts)) = cv"
    and "minChromeVersion (options_after (requireForMinChromeVersion opts)) = Null
         \<and> crxVersion (options_after (requireForMinChromeVersion opts)) = cv"
    and "minChromeVersion (options_after (requireForCrx opts)) = Null
         \<and> crxVersion (options_after (requireForCrx opts)) = cv"
    and "minChromeVersion (options_after (requireForId opts)) = Null
         \<and> crxVersion (options_after (requireForId opts)) = cv"
    and "minChromeVersion (options_after (requireForPublicKey opts)) = Null
         \<and> crxVersion (options_after (requireForPublicKey opts)) = cv"
    and "minChromeVersion (options_after (generateKeys env opts)) = Null
         \<and> crxVersion (options_after (generateKeys env opts)) = cv"
    and "minChromeVersion (options_after (derivePublicKey env opts)) = Null
         \<and> crxVersion (options_after (derivePublicKey env opts)) = cv"
    and "minChromeVersion (options_after (loadContents env opts)) = Null
         \<and> crxVersion (options_after (loadContents env opts)) = cv"
    and "minChromeVersion (options_after (resolveCrx env opts)) = Null
         \<and> crxVersion (options_after (resolveCrx env opts)) = cv"
    and "minChromeVersion (options_after (resolveId env opts)) = Null
         \<and> crxVersion (options_after (resolveId env opts)) = cv"
    and "minChromeVersion (options_after (resolveExtVersion opts)) = Null
         \<and> crxVersion (options_after (resolveExtVersion opts)) = cv"
  using assms
  by (auto simp: step_defs Let_def request_def
      split: field.splits blob.splits option.splits sum.splits prod.splits)

text \<open>Lines 541 to 563, the part of \<^verbatim>\<open>pack\<close> behind the keys.\<close>

definition afterKeys :: "'rsa node \<Rightarrow> 'rsa PackInput \<Rightarrow> 'rsa outcome" where
  "afterKeys env options =
     next_step (derivePublicKey env options) (\<lambda>options.
     next_step (loadContents env options) (\<lambda>options.
     next_step (resolveCrx env options) (\<lambda>options.
     next_step (resolveId env options) (\<lambda>options.
     next_step (resolveExtVersion options) (\<lambda>options.
     next_step (resolveMinChromeVersion options) (\<lambda>options.
     resolveUpdateXML options))))))"

lemmas step_splits = field.splits blob.splits option.splits sum.splits prod.splits

lemma next_step_assoc:
  "next_step (next_step r f) g = next_step r (\<lambda>opts. next_step (f opts) g)"
  by (cases r) simp_all

lemma pack_beforeKeys:
  "pack env opts =
     next_step (beforeKeys env opts) (\<lambda>options.
     next_step (generateKeys env options) (afterKeys env))"
  unfolding pack_def beforeKeys_def afterKeys_def next_step_assoc by (rule refl)

lemma beforeKeys_invariant:
  assumes "P opts"
    and "\<And>opts. P opts \<Longrightarrow> P (options_after (loadPrivateKey env opts))"
    and "\<And>opts. P opts \<Longrightarrow> P (options_after (loadPublicKey env opts))"
    and "\<And>opts. P opts \<Longrightarrow> P (options_after (requireForUpdateXML opts))"
    and "\<And>opts. P opts \<Longrightarrow> P (options_after (requireForExtVersion opts))"
    and "\<And>opts. P opts \<Longrightarrow> P (options_after (requireForMinChromeVersion opts))"
    and "\<And>opts. P opts \<Longrightarrow> P (options_after (requireForCrx opts))"
    and "\<And>opts. P opts \<Longrightarrow> P (options_after (requireForId opts))"
    and "\<And>opts. P opts \<Longrightarrow> P (options_after (requireForPublicKey opts))"
  shows "P (options_after (beforeKeys env opts))"
  unfolding beforeKeys_def
  by (intro next_step_inv [where P = P] assms)

lemma afterKeys_invariant:
  assumes "P opts"
    and "\<And>opts. P opts \<Longrightarrow> P (options_after (derivePublicKey env opts))"
    and "\<And>opts. P opts \<Longrightarrow> P (options_after (loadContents env opts))"
    and "\<And>opts. P opts \<Longrightarrow> P (options_after (resolveCrx env opts))"
    and "\<And>opts. P opts \<Longrightarrow> P (options_after (resolveId env opts))"
    and "\<And>opts. P opts \<Longrightarrow> P (options_after (resolveExtVersion opts))"
    and "\<And>opts. P opts \<Longrightarrow> P (options_after (resolveMinChromeVersion opts))"
    and "\<And>opts. P opts \<Longrightarrow> P (options_after (resolveUpdateXML opts))"
  shows "P (options_after (afterKeys env opts))"
  unfolding afterKeys_def
  by (intro next_step_inv [where P = P] assms)

lemma pack_no_keys:
  assumes "\<not> generatesKeys env opts"
  shows "pack env opts = next_step (beforeKeys env opts) (afterKeys env)"
proof (cases "beforeKeys env opts")
  case (Rejected e s)
  then show ?thesis by (simp add: pack_beforeKeys)
next
  case (Resolved s)
  with assms have "privateKey s \<noteq> Null" by (simp add: generatesKeys_def)
  then have "generateKeys env s = Resolved s" by (simp add: generateKeys_def)
  with Resolved show ?thesis by (simp add: pack_beforeKeys)
qed

lemma pack_keys:
  assumes "generatesKeys env opts"
  obtains s where "beforeKeys env opts = Resolved s" and "privateKey s = Null"
    and "pack env opts = next_step (generateKeys env s) (afterKeys env)"
proof (cases "beforeKeys env opts")
  case (Rejected e s)
  with assms show ?thesis by (simp add: generatesKeys_def)
next
  case (Resolved s)
  with assms have "privateKey s = Null" by (simp add: generatesKeys_def)
  with Resolved that show ?thesis by (simp add: pack_beforeKeys)
qed

lemma pack_invariant_no_keys:
  assumes "\<not> generatesKeys env opts" and "P opts"
    and "\<And>opts. P opts \<Longrightarrow> P (options_after (loadPrivateKey env opts))"
    and "\<And>opts. P opts \<Longrightarrow> P (options_after (loadPublicKey env opts))"
    and "\<And>opts. P opts \<Longrightarrow> P (options_after (requireForUpdateXML opts))"
    and "\<And>opts. P opts \<Longrightarrow> P (options_after (requireForExtVersion opts))"
    and "\<And>opts. P opts \<Longrightarrow> P (options_after (requireForMinChromeVersion opts))"
    and "\<And>opts. P opts \<Longrightarrow> P (options_after (requireForCrx opts))"
    and "\<And>opts. P opts \<Longrightarrow> P (options_after (requireForId opts))"
    and "\<And>opts. P opts \<Longrightarrow> P (options_after (requireForPublicKey opts))"
    and "\<And>opts. P opts \<Longrightarrow> P (options_after (derivePublicKey env opts))"
    and "\<And>opts. P opts \<Longrightarrow> P (options_after (loadContents env opts))"
    and "\<And>opts. P opts \<Longrightarrow> P (options_after (resolveCrx env opts))"
    and "\<And>opts. P opts \<Longrightarrow> P (options_after (resolveId env opts))"
    and "\<And>opts. P opts \<Longrightarrow> P (options_after (resolveExtVersion opts))"
    and "\<And>opts. P opts \<Longrightarrow> P (options_after (resolveMinChromeVersion opts))"
    and "\<And>opts. P opts \<Longrightarrow> P (options_after (resolveUpdateXML opts))"
  shows "P (options_after (pack env opts))"
  unfolding pack_no_keys [OF assms(1)]
proof (rule next_step_inv [where P = P])
  show "P (options_after (beforeKeys env opts))"
    by (rule beforeKeys_invariant [where P = P]) (fact assms)+
  show "P (options_after (afterKeys env s))" if "P s" for s
    by (rule afterKeys_invariant [where P = P]) (fact that assms)+
qed

text \<open>When no key pair is generated, and when one is.\<close>

lemma loads_keep_id:
  "id' (options_after (loadPrivateKey env opts)) = id' opts"
  "id' (options_after (loadPublicKey env opts)) = id' opts"
  by (auto simp: loadPrivateKey_def loadPublicKey_def Let_def
           split: field.splits blob.splits option.splits sum.splits)

lemma beforeKeys_loaded2:
  assumes "loadPrivateKey env opts = Resolved o1" and "loadPublicKey env o1 = Resolved o2"
  shows "beforeKeys env opts =
     next_step (requireForUpdateXML o2) (\<lambda>options.
     next_step (requireForExtVersion options) (\<lambda>options.
     next_step (requireForMinChromeVersion options) (\<lambda>options.
     next_step (requireForCrx options) (\<lambda>options.
     next_step (requireForId options) (\<lambda>options.
     requireForPublicKey options)))))"
  using assms by (simp add: beforeKeys_def)

lemma generatesKeys_loaded:
  assumes "loadPrivateKey env opts = Resolved o1" and "loadPublicKey env o1 = Resolved o2"
  shows "generatesKeys env opts \<longleftrightarrow>
           \<not> (updateXML o2 = Null \<and> crxUrl o2 = None)
         \<and> \<not> (crx o2 = Null \<and> contents o2 = None)
         \<and> (privateKey o2 = Null
            \<or> privateKey o2 = Undefined
              \<and> (crx o2 = Null \<or> publicKey o2 = Null
                 \<or> publicKey o2 = Undefined
                   \<and> (id' o2 = Null \<or> id' o2 = Undefined \<and> updateXML o2 = Null)))"
proof -
  have u: "requireForUpdateXML o2 =
             (if updateXML o2 = Null \<and> crxUrl o2 = None
              then Rejected (Error ''crxUrl must be defined to generate updateXML'') o2
              else Resolved (if updateXML o2 = Null
                             then o2\<lparr>id' := request (id' o2), extVersion := request (extVersion o2),
                                    minChromeVersion := request (minChromeVersion o2)\<rparr>
                             else o2))"
    by (simp add: requireForUpdateXML_def)
  show ?thesis
  proof (cases "updateXML o2 = Null \<and> crxUrl o2 = None")
    case True
    then show ?thesis
      unfolding generatesKeys_def beforeKeys_loaded2 [OF assms] u by simp
  next
    case False
    define o3 where "o3 = (if updateXML o2 = Null
                             then o2\<lparr>id' := request (id' o2), extVersion := request (extVersion o2),
                                    minChromeVersion := request (minChromeVersion o2)\<rparr>
                             else o2)"
    have o3: "privateKey o3 = privateKey o2" "publicKey o3 = publicKey o2" "crx o3 = crx o2"
      "contents o3 = contents o2"
      "id' o3 = (if updateXML o2 = Null then request (id' o2) else id' o2)"
      by (simp_all add: o3_def)
    define o5 where "o5 = options_after (next_step (requireForExtVersion o3)
                            requireForMinChromeVersion)"
    have s5: "next_step (requireForExtVersion o3) (\<lambda>options.
               next_step (requireForMinChromeVersion options) K) = K o5" for K
      by (simp add: o5_def requireForExtVersion_def requireForMinChromeVersion_def)
    have o5: "privateKey o5 = privateKey o2" "publicKey o5 = publicKey o2" "crx o5 = crx o2"
      "contents o5 = contents o2"
      "id' o5 = (if updateXML o2 = Null then request (id' o2) else id' o2)"
      by (simp_all add: o5_def requireForExtVersion_def requireForMinChromeVersion_def o3)
    from False have "beforeKeys env opts =
        next_step (requireForCrx o5) (\<lambda>options.
        next_step (requireForId options) (\<lambda>options.
        requireForPublicKey options))"
      unfolding beforeKeys_loaded2 [OF assms] u
      by (simp only: if_False next_step_Resolved o3_def [symmetric] s5)
    then show ?thesis
      using False unfolding generatesKeys_def
      by (cases "privateKey o2"; cases "publicKey o2"; cases "id' o2")
         (auto simp: requireForCrx_def requireForId_def requireForPublicKey_def request_def o5)
  qed
qed

lemma generatesKeys_iff:
  "generatesKeys env opts \<longleftrightarrow>
     (\<exists>o1 o2. loadPrivateKey env opts = Resolved o1 \<and> loadPublicKey env o1 = Resolved o2
        \<and> \<not> (updateXML opts = Null \<and> crxUrl opts = None)
        \<and> \<not> (crx opts = Null \<and> contents opts = None)
        \<and> (privateKey o2 = Null
            \<or> privateKey o2 = Undefined
              \<and> (crx opts = Null \<or> publicKey o2 = Null
                 \<or> publicKey o2 = Undefined
                   \<and> (id' opts = Null \<or> id' opts = Undefined \<and> updateXML opts = Null))))"
proof (cases "loadPrivateKey env opts")
  case (Rejected e s)
  then show ?thesis by (simp add: generatesKeys_def beforeKeys_def)
next
  case 1: (Resolved o1)
  show ?thesis
  proof (cases "loadPublicKey env o1")
    case (Rejected e s)
    with 1 show ?thesis by (simp add: generatesKeys_def beforeKeys_def)
  next
    case 2: (Resolved o2)
    from 1 2 loads_keep [of env opts] loads_keep [of env o1] loads_keep_id [of env opts]
      loads_keep_id [of env o1]
    have k: "crx o2 = crx opts" "contents o2 = contents opts" "updateXML o2 = updateXML opts"
      "crxUrl o2 = crxUrl opts" "id' o2 = id' opts"
      by simp_all
    show ?thesis
      unfolding generatesKeys_loaded [OF 1 2] k by (simp add: 1 2)
  qed
qed

lemma no_keys_bytes:
  assumes "privateKey opts = Given (Bytes k)"
  shows "\<not> generatesKeys env opts"
proof -
  have "privateKey (options_after (beforeKeys env opts)) = Given (Bytes k)"
    by (rule beforeKeys_invariant [where P = "\<lambda>s. privateKey s = Given (Bytes k)"])
       (use assms in \<open>auto simp: step_defs Let_def request_def split: step_splits\<close>)
  then show ?thesis by (cases "beforeKeys env opts") (simp_all add: generatesKeys_def)
qed

lemma beforeKeys_loaded:
  assumes "loadPrivateKey env opts = Resolved o1" and "privateKey o1 = Given (Bytes k)"
  shows "beforeKeys env o1 = beforeKeys env opts"
proof -
  from assms(2) have "loadPrivateKey env o1 = Resolved o1" by (simp add: loadPrivateKey_def)
  with assms(1) show ?thesis by (simp add: beforeKeys_def)
qed

lemma no_keys_loaded:
  assumes "loadPrivateKey env opts = Resolved o1" and "privateKey o1 = Given (Bytes k)"
  shows "\<not> generatesKeys env opts"
  using no_keys_bytes [OF assms(2), of env] beforeKeys_loaded [OF assms]
  by (simp add: generatesKeys_def)

lemma no_keys_absent:
  assumes "privateKey opts = Undefined" and "crx opts \<noteq> Null" and "publicKey opts = Given (Bytes pk)"
  shows "\<not> generatesKeys env opts"
proof -
  let ?P = "\<lambda>s. privateKey s = Undefined \<and> crx s \<noteq> Null \<and> publicKey s = Given (Bytes pk)"
  have "?P (options_after (beforeKeys env opts))"
    by (rule beforeKeys_invariant [where P = ?P])
       (use assms in \<open>auto simp: step_defs Let_def request_def split: step_splits\<close>)
  then show ?thesis by (cases "beforeKeys env opts") (simp_all add: generatesKeys_def)
qed

lemma keys_rsa:
  assumes "generatesKeys env opts"
  shows "rsa (options_after (pack env opts)) =
           Some (generate_RSA env (case keySize opts of Some b \<Rightarrow> if b = 0 then 4096 else b
                                   | None \<Rightarrow> 4096))"
proof -
  define g where "g = generate_RSA env (case keySize opts of Some b \<Rightarrow> if b = 0 then 4096 else b
                                   | None \<Rightarrow> 4096)"
  from assms obtain s where b: "beforeKeys env opts = Resolved s" and n: "privateKey s = Null"
    and p: "pack env opts = next_step (generateKeys env s) (afterKeys env)"
    by (rule pack_keys)
  have "keySize (options_after (beforeKeys env opts)) = keySize opts"
    by (rule beforeKeys_invariant [where P = "\<lambda>s. keySize s = keySize opts"])
       (auto simp: step_defs Let_def split: step_splits)
  with b have ks: "keySize s = keySize opts" by simp
  have gk: "rsa (options_after (generateKeys env s)) = Some g"
    using n by (simp add: generateKeys_def Let_def ks g_def split: sum.splits)
  have "rsa (options_after (pack env opts)) = Some g"
    unfolding p
  proof (rule next_step_inv [where P = "\<lambda>s. rsa s = Some g"])
    show "rsa (options_after (generateKeys env s)) = Some g" by (fact gk)
    show "rsa (options_after (afterKeys env t)) = Some g" if "rsa t = Some g" for t
      by (rule afterKeys_invariant [where P = "\<lambda>s. rsa s = Some g"])
         (use that in \<open>auto simp: step_defs Let_def split: step_splits\<close>)
  qed
  then show ?thesis by (simp add: g_def)
qed

lemma keys_exported:
  assumes "generatesKeys env opts" and "pack env opts = Resolved fin"
  shows "\<exists>priv pub.
           exportKey env (generate_RSA env (case keySize opts of Some b \<Rightarrow> if b = 0 then 4096 else b
                                   | None \<Rightarrow> 4096)) Pkcs8_private_der = Inr priv
         \<and> exportKey env (generate_RSA env (case keySize opts of Some b \<Rightarrow> if b = 0 then 4096 else b
                                   | None \<Rightarrow> 4096)) Pkcs8_public_der = Inr pub
         \<and> privateKey fin = Given (Bytes priv) \<and> publicKey fin = Given (Bytes pub)"
proof -
  define g where "g = generate_RSA env (case keySize opts of Some b \<Rightarrow> if b = 0 then 4096 else b
                                   | None \<Rightarrow> 4096)"
  from assms(1) obtain s where b: "beforeKeys env opts = Resolved s" and n: "privateKey s = Null"
    and p: "pack env opts = next_step (generateKeys env s) (afterKeys env)"
    by (rule pack_keys)
  have "keySize (options_after (beforeKeys env opts)) = keySize opts"
    by (rule beforeKeys_invariant [where P = "\<lambda>s. keySize s = keySize opts"])
       (auto simp: step_defs Let_def split: step_splits)
  with b have ks: "keySize s = keySize opts" by simp
  from assms(2) p obtain t where gt: "generateKeys env s = Resolved t"
    and at: "afterKeys env t = Resolved fin"
    by (auto simp: next_step_Resolved_iff)
  from gt n obtain priv pub where
    e: "exportKey env g Pkcs8_private_der = Inr priv" "exportKey env g Pkcs8_public_der = Inr pub"
    and t: "privateKey t = Given (Bytes priv) \<and> publicKey t = Given (Bytes pub)"
    by (auto simp: generateKeys_def Let_def ks g_def split: sum.splits)
  let ?P = "\<lambda>s. privateKey s = Given (Bytes priv) \<and> publicKey s = Given (Bytes pub)"
  have "?P (options_after (afterKeys env t))"
    by (rule afterKeys_invariant [where P = ?P])
       (use t in \<open>auto simp: step_defs Let_def split: step_splits\<close>)
  with at e show ?thesis by (simp add: g_def)
qed

lemma pack_resolved_contents:
  assumes "pack env opts = Resolved fin"
  shows "\<forall>p. contents fin \<noteq> Some (Path p)"
proof -
  from assms obtain o1 o2 o3 o4 o5 o6 o7 o8 o9 o10 o11 o12 o13 o14 o15 where
    s: "loadContents env o10 = Resolved o11" "resolveCrx env o11 = Resolved o12"
       "resolveId env o12 = Resolved o13" "resolveExtVersion o13 = Resolved o14"
       "resolveMinChromeVersion o14 = Resolved o15" "resolveUpdateXML o15 = Resolved fin"
    unfolding pack_def next_step_Resolved_iff by (elim exE conjE) (rule that)
  from s(1) have "\<forall>p. contents o11 \<noteq> Some (Path p)"
    by (auto simp: loadContents_def split: step_splits)
  with s(2) have "\<forall>p. contents o12 \<noteq> Some (Path p)"
    by (auto simp: resolveCrx_def Let_def split: step_splits if_splits)
  with s(3) have "\<forall>p. contents o13 \<noteq> Some (Path p)"
    by (auto simp: resolveId_def split: step_splits if_splits)
  with s(4) have "\<forall>p. contents o14 \<noteq> Some (Path p)"
    by (auto simp: resolveExtVersion_def split: step_splits if_splits)
  with s(5) have "\<forall>p. contents o15 \<noteq> Some (Path p)"
    by (auto simp: resolveMinChromeVersion_def Let_def split: step_splits if_splits)
  with s(6) show ?thesis
    by (auto simp: resolveUpdateXML_def split: step_splits if_splits)
qed

lemma pack_resolved_keys:
  assumes "pack env opts = Resolved fin"
  shows "(\<forall>p. privateKey fin \<noteq> Given (Path p)) \<and> (\<forall>p. publicKey fin \<noteq> Given (Path p))"
proof -
  from assms obtain o1 o2 where 1: "loadPrivateKey env opts = Resolved o1"
    and 2: "loadPublicKey env o1 = Resolved o2"
    unfolding pack_def next_step_Resolved_iff by (elim exE conjE) (rule that)
  from 1 have p1: "\<forall>p. privateKey o1 \<noteq> Given (Path p)"
    by (auto simp: loadPrivateKey_def Let_def split: step_splits if_splits)
  with 2 have p2: "(\<forall>p. privateKey o2 \<noteq> Given (Path p)) \<and> (\<forall>p. publicKey o2 \<noteq> Given (Path p))"
    by (auto simp: loadPublicKey_def Let_def split: step_splits if_splits)
  then have l: "loadPrivateKey env o2 = Resolved o2" "loadPublicKey env o2 = Resolved o2"
    by (auto simp: loadPrivateKey_def loadPublicKey_def split: step_splits)
  have "pack env o2 = pack env opts"
    by (simp add: pack_def 1 2 l)
  let ?P = "\<lambda>s. (\<forall>p. privateKey s \<noteq> Given (Path p)) \<and> (\<forall>p. publicKey s \<noteq> Given (Path p))"
  have "?P (options_after (pack env o2))"
    by (rule pack_invariant [where P = ?P])
       (use p2 in \<open>auto simp: step_defs Let_def request_def split: step_splits\<close>)
  with \<open>pack env o2 = pack env opts\<close> assms show ?thesis by simp
qed

lemma contents_kept:
  "contents (options_after (loadPrivateKey env opts)) = contents opts"
  "contents (options_after (loadPublicKey env opts)) = contents opts"
  "contents (options_after (requireForUpdateXML opts)) = contents opts"
  "contents (options_after (requireForExtVersion opts)) = contents opts"
  "contents (options_after (requireForMinChromeVersion opts)) = contents opts"
  "contents (options_after (requireForCrx opts)) = contents opts"
  "contents (options_after (requireForId opts)) = contents opts"
  "contents (options_after (requireForPublicKey opts)) = contents opts"
  "contents (options_after (generateKeys env opts)) = contents opts"
  "contents (options_after (derivePublicKey env opts)) = contents opts"
  "contents (options_after (resolveCrx env opts)) = contents opts"
  "contents (options_after (resolveId env opts)) = contents opts"
  "contents (options_after (resolveExtVersion opts)) = contents opts"
  "contents (options_after (resolveMinChromeVersion opts)) = contents opts"
  "contents (options_after (resolveUpdateXML opts)) = contents opts"
  by (auto simp: step_defs Let_def split: step_splits)

lemma manifest_kept:
  assumes "manifest opts = Given m"
  shows "manifest (options_after (loadPrivateKey env opts)) = Given m"
  "manifest (options_after (loadPublicKey env opts)) = Given m"
  "manifest (options_after (requireForUpdateXML opts)) = Given m"
  "manifest (options_after (requireForExtVersion opts)) = Given m"
  "manifest (options_after (requireForMinChromeVersion opts)) = Given m"
  "manifest (options_after (requireForCrx opts)) = Given m"
  "manifest (options_after (requireForId opts)) = Given m"
  "manifest (options_after (requireForPublicKey opts)) = Given m"
  "manifest (options_after (generateKeys env opts)) = Given m"
  "manifest (options_after (derivePublicKey env opts)) = Given m"
  "manifest (options_after (resolveCrx env opts)) = Given m"
  "manifest (options_after (resolveId env opts)) = Given m"
  "manifest (options_after (resolveExtVersion opts)) = Given m"
  "manifest (options_after (resolveMinChromeVersion opts)) = Given m"
  "manifest (options_after (resolveUpdateXML opts)) = Given m"
  using assms by (auto simp: step_defs Let_def request_def split: step_splits)

lemma loadContents_path:
  "contents opts = Some (Path p) \<Longrightarrow>
     (contents (options_after (loadContents env opts)) = Some (Path p)
        \<and> manifest (options_after (loadContents env opts)) = manifest opts)
     \<or> (\<exists>c m. packContents env p = Inr (c, m)
          \<and> contents (options_after (loadContents env opts)) = Some (Bytes c)
          \<and> manifest (options_after (loadContents env opts)) = Given m)"
  by (cases "packContents env p") (auto simp: loadContents_def)

lemma loadContents_bytes:
  "contents opts = Some (Bytes c) \<Longrightarrow> options_after (loadContents env opts) = opts"
  by (simp add: loadContents_def)

lemma pack_contents_path:
  assumes "contents opts = Some (Path p)"
  shows "contents (options_after (pack env opts)) = Some (Path p)
         \<or> (\<exists>c m. packContents env p = Inr (c, m)
              \<and> contents (options_after (pack env opts)) = Some (Bytes c)
              \<and> manifest (options_after (pack env opts)) = Given m)"
proof -
  let ?P = "\<lambda>s. contents s = Some (Path p)
         \<or> (\<exists>c m. packContents env p = Inr (c, m) \<and> contents s = Some (Bytes c)
              \<and> manifest s = Given m)"
  have l: "?P (options_after (loadContents env s))" if "?P s" for s
    using that loadContents_path [of s p env] loadContents_bytes [of s _ env] by auto
  show ?thesis
    by (rule pack_invariant [where P = ?P])
       (use assms l in \<open>auto simp: contents_kept manifest_kept\<close>)
qed

lemma pack_manifest_path:
  assumes "contents opts = Some (Path p)" and "manifest opts = Given m0"
  shows "manifest (options_after (pack env opts)) = Given m0
         \<or> (\<exists>c m. packContents env p = Inr (c, m)
              \<and> manifest (options_after (pack env opts)) = Given m)"
proof -
  let ?P = "\<lambda>s. contents s = Some (Path p) \<and> manifest s = Given m0
         \<or> (\<exists>c m. packContents env p = Inr (c, m) \<and> contents s = Some (Bytes c)
              \<and> manifest s = Given m)"
  have l: "?P (options_after (loadContents env s))" if "?P s" for s
    using that loadContents_path [of s p env] loadContents_bytes [of s _ env] by auto
  have "?P (options_after (pack env opts))"
    by (rule pack_invariant [where P = ?P])
       (use assms l in \<open>auto simp: contents_kept manifest_kept\<close>)
  then show ?thesis by auto
qed

section \<open>The claims\<close>

subsection \<open>C1: the round trip of version 2\<close>

text \<open>
  C1 says that \<open>unpack (packCrx2 priv pub contents)\<close> succeeds for every contents
  buffer, and returns the key and the contents. \<open>packCrx2\<close> allocates
  \<open>16 + |publicKey| + |signature|\<close> bytes and then sets \<open>contents\<close> at that offset, which is
  the end of the array: with contents that are not empty the last \<^verbatim>\<open>set\<close> throws a
  RangeError, whatever the keys and the signing primitive are, and no container is
  returned. (\<open>packCrx3\<close> counts the contents into the size.)
\<close>

theorem packCrx2_contents_out_of_range:
  "packCrx2 env priv pub (b # bs) r =
     andThen (andThen (rsa_or_new env r priv) (\<lambda>k. rsa_sign env k Pkcs1_sha1 (b # bs)))
       (\<lambda>signature. Inl RangeError)"
proof (cases "rsa_or_new env r priv")
  case (Inl e)
  then show ?thesis by (simp add: packCrx2_def)
next
  case (Inr k)
  note K = this
  show ?thesis
  proof (cases "rsa_sign env k Pkcs1_sha1 (b # bs)")
    case (Inl e)
    with K show ?thesis by (simp add: packCrx2_def)
  next
    case (Inr s)
    with K show ?thesis
      by (simp add: packCrx2_def Let_def u8set_def setUint32_def new_Uint8Array_def
            kSignature_bytes le32_def)
  qed
qed

theorem packCrx2_contents_out_of_range_witness:
  "packCrx2 example_node [1, 2, 3] [4, 5] [80, 75] None = Inl RangeError"
  using packCrx2_contents_out_of_range [of example_node "[1, 2, 3]" "[4, 5]" 80 "[75]" None]
  by (simp add: example_node_def rsa_or_new_def)

subsection \<open>C2: the round trip of version 3\<close>

text \<open>
  C2 says that \<open>unpack (packCrx3 priv pub contents)\<close> succeeds for every private key.
  \<open>packCrx3\<close> makes an RSA key of the bytes of the private key and signs with it (lines
  306 to 320); node-rsa throws on bytes that are no key, and then no container is
  returned. In the example environment the empty private key is refused.
\<close>

theorem packCrx3_unusable_key:
  "packCrx3 example_node [] [4, 5] [80, 75] None = Inl (Thrown ''Error: no key'')"
  by (simp add: packCrx3_def generateCrx3Signature_def rsa_or_new_def example_node_def Let_def)

text \<open>
  C2 as amended. When the signing primitive returns a signature \<open>sg\<close> for the payload, and
  the public key and the signature together are shorter than \<open>2^32 - 40\<close> bytes (so that
  the length of the header fits its four bytes), \<open>packCrx3\<close> returns a container, \<open>unpack\<close>
  of that container succeeds, its archive is the contents byte for byte, its header holds
  the public key and the signature as the one RSA proof, and the \<open>signed_header_data\<close> of
  the header is a \<open>SignedData\<close> message whose \<open>crx_id\<close> is the first 16 bytes of the
  SHA-256 digest of the public key.
\<close>

theorem unpack_packCrx3:
  assumes sg: "generateCrx3Signature env priv
                 (SignedData_write \<lparr>crx_id = Some (generateBinaryCrxId env pub)\<rparr> []) c r = Inr sg"
    and len: "length pub + length sg < 4294967256"
  shows "\<exists>out. packCrx3 env priv pub c r = Inr out
           \<and> unpack (whole out) =
               Inr (Crx3 c \<lparr>sha256_with_rsa =
                               Some [\<lparr>public_key = Some pub, signature = Some sg\<rparr>],
                             sha256_with_ecdsa = Some [],
                             signed_header_data = Some ([10, 16] @ take 16 (digest env pub))\<rparr>)
           \<and> SignedData_read ([10, 16] @ take 16 (digest env pub)) =
               Inr \<lparr>crx_id = Some (take 16 (digest env pub))\<rparr>
           \<and> length (take 16 (digest env pub)) = 16"
proof -
  define shd where "shd = [10, 16] @ take 16 (digest env pub)"
  define h where "h = CrxFileHeader_write
     \<lparr>sha256_with_rsa = Some [\<lparr>public_key = Some pub, signature = Some sg\<rparr>],
      sha256_with_ecdsa = None, signed_header_data = Some shd\<rparr> []"
  define out where "out = kSignature @ kVersion @ le32 (length h) @ h @ c"
  have shd: "SignedData_write \<lparr>crx_id = Some (generateBinaryCrxId env pub)\<rparr> [] = shd"
    using length_generateBinaryCrxId [of env pub]
    by (simp add: SignedData_write_bytes varint_16 generateBinaryCrxId_take shd_def)
  have lshd: "length shd = 18" by (simp add: shd_def digest_length)
  have hl: "length h < 4294967296"
    unfolding h_def by (rule length_CrxFileHeader_written [OF len lshd])
  have pk: "packCrx3 env priv pub c r = Inr out"
    using sg by (simp add: packCrx3_container shd Let_def out_def h_def)
  have hr: "CrxFileHeader_read h =
              Inr \<lparr>sha256_with_rsa = Some [\<lparr>public_key = Some pub, signature = Some sg\<rparr>],
                   sha256_with_ecdsa = Some [], signed_header_data = Some shd\<rparr>"
  proof (rule CrxFileHeader_read_written)
    show "h = [18] @ varint (length ([10] @ varint (length pub) @ pub @ [18]
                  @ varint (length sg) @ sg))
              @ ([10] @ varint (length pub) @ pub @ [18] @ varint (length sg) @ sg)
              @ [130, 241, 4] @ varint (length shd) @ shd"
      unfolding h_def by (rule CrxFileHeader_write_bytes)
    show "[10] @ varint (length pub) @ pub @ [18] @ varint (length sg) @ sg
            = [10] @ varint (length pub) @ pub @ [18] @ varint (length sg) @ sg" ..
    from hl show "length h \<le> 9007199254740991" by simp
  qed
  have magic: "every kSignature (\<lambda>v i. andThen (getUint8 out i) (\<lambda>b. Inr (b = v))) = Inr True"
    by (simp add: magic_cases out_def)
  have ver: "getUint32 out 4 = Inr 3"
    by (simp add: out_def getUint32_def kSignature_bytes kVersion_def)
  have hlen: "getUint32 out 8 = Inr (length h)"
    using getUint32_le32 [of "kSignature @ kVersion" "length h" "h @ c"] hl
    by (simp add: out_def)
  have sl: "slice out 12 (12 + length h) = h" "slice_from out (12 + length h) = c"
    by (simp_all add: out_def slice_def slice_from_def)
  have un: "unpack (whole out) =
              Inr (Crx3 c \<lparr>sha256_with_rsa = Some [\<lparr>public_key = Some pub, signature = Some sg\<rparr>],
                            sha256_with_ecdsa = Some [], signed_header_data = Some shd\<rparr>)"
    by (simp add: unpack_unfold magic ver hlen sl hr)
  have sd: "SignedData_read shd = Inr \<lparr>crx_id = Some (take 16 (digest env pub))\<rparr>"
    using SignedData_read_written [of "take 16 (digest env pub)"]
    by (simp add: shd_def digest_length varint_16)
  from pk un sd show ?thesis by (simp add: shd_def digest_length)
qed

theorem unpack_packCrx3_witness:
  "generateCrx3Signature example_node [1, 2, 3]
     (SignedData_write \<lparr>crx_id = Some (generateBinaryCrxId example_node [4, 5])\<rparr> []) [80, 75] None
     = Inr [170, 187]
   \<and> packCrx3 example_node [1, 2, 3] [4, 5] [80, 75] None =
       Inr [67, 114, 50, 52, 3, 0, 0, 0, 32, 0, 0, 0, 18, 8, 10, 2, 4, 5, 18, 2, 170, 187,
            130, 241, 4, 18, 10, 16, 1, 35, 69, 103, 137, 171, 205, 239, 0, 17, 34, 51, 68, 85,
            102, 119, 80, 75]
   \<and> unpack (whole [67, 114, 50, 52, 3, 0, 0, 0, 32, 0, 0, 0, 18, 8, 10, 2, 4, 5, 18, 2, 170,
            187, 130, 241, 4, 18, 10, 16, 1, 35, 69, 103, 137, 171, 205, 239, 0, 17, 34, 51, 68,
            85, 102, 119, 80, 75]) =
       Inr (Crx3 [80, 75]
              \<lparr>sha256_with_rsa = Some [\<lparr>public_key = Some [4, 5], signature = Some [170, 187]\<rparr>],
               sha256_with_ecdsa = Some [],
               signed_header_data =
                 Some [10, 16, 1, 35, 69, 103, 137, 171, 205, 239, 0, 17, 34, 51, 68, 85, 102, 119]\<rparr>)"
proof -
  have s: "generateCrx3Signature example_node [1, 2, 3]
     (SignedData_write \<lparr>crx_id = Some (generateBinaryCrxId example_node [4, 5])\<rparr> []) [80, 75] None
     = Inr [170, 187]"
    by (simp add: generateCrx3Signature_payload rsa_or_new_def example_node_def)
  have p: "packCrx3 example_node [1, 2, 3] [4, 5] [80, 75] None =
       Inr [67, 114, 50, 52, 3, 0, 0, 0, 32, 0, 0, 0, 18, 8, 10, 2, 4, 5, 18, 2, 170, 187,
            130, 241, 4, 18, 10, 16, 1, 35, 69, 103, 137, 171, 205, 239, 0, 17, 34, 51, 68, 85,
            102, 119, 80, 75]"
    by (simp only: packCrx3_container s)
       (simp add: Let_def SignedData_write_bytes generateBinaryCrxId_take
          digest_example CrxFileHeader_write_bytes varint_small le32_def kSignature_bytes
          kVersion_def)
  from unpack_packCrx3 [OF s] p s show ?thesis
    by (simp add: digest_example)
qed

subsection \<open>C3: the signed bytes\<close>

text \<open>
  C3 says that the context string in front of the signed bytes has 17 bytes. The string
  \<^verbatim>\<open>"CRX3 SignedData\x00"\<close> has 15 characters and the final zero: 16 bytes.
\<close>

theorem kSignatureContext_length:
  "length kSignatureContext = 16 \<and> length kSignatureContext \<noteq> 17"
  by (simp add: kSignatureContext_bytes)

text \<open>
  C3 as amended. In \<open>packCrx3\<close> the signing primitive is called once, with the scheme
  PKCS#1 v1.5 with SHA-256, on the concatenation of: the 16 bytes of
  \<^verbatim>\<open>"CRX3 SignedData\x00"\<close>; the little-endian length of \<open>signed_header_data\<close> in 4
  bytes, which is \<open>18, 0, 0, 0\<close>; \<open>signed_header_data\<close>, which is the bytes \<open>10, 16\<close> and
  the first 16 bytes of the digest of the public key; and the contents. The magic, the
  version, the header length and the header are put around the result afterwards and are
  no part of what is signed.
\<close>

theorem packCrx3_signed_bytes:
  "packCrx3 env priv pub c r =
     andThen (andThen (rsa_or_new env r priv) (\<lambda>k. rsa_sign env k Pkcs1_sha256
                (kSignatureContext @ le32 18 @ ([10, 16] @ take 16 (digest env pub)) @ c)))
       (\<lambda>sg. let header = CrxFileHeader_write
                     \<lparr>sha256_with_rsa = Some [\<lparr>public_key = Some pub, signature = Some sg\<rparr>],
                      sha256_with_ecdsa = None,
                      signed_header_data = Some ([10, 16] @ take 16 (digest env pub))\<rparr> []
               in Inr (kSignature @ kVersion @ le32 (length header) @ header @ c))
   \<and> kSignatureContext = map charCodeAt ''CRX3 SignedData'' @ [0]
   \<and> length kSignatureContext = 16
   \<and> le32 18 = [18, 0, 0, 0]
   \<and> SignedData_write \<lparr>crx_id = Some (generateBinaryCrxId env pub)\<rparr> []
       = [10, 16] @ take 16 (digest env pub)
   \<and> length ([10, 16] @ take 16 (digest env pub)) = 18"
proof (intro conjI)
  show shd: "SignedData_write \<lparr>crx_id = Some (generateBinaryCrxId env pub)\<rparr> []
               = [10, 16] @ take 16 (digest env pub)"
    using length_generateBinaryCrxId [of env pub]
    by (simp add: SignedData_write_bytes varint_16 generateBinaryCrxId_take)
  show len: "length ([10, 16] @ take 16 (digest env pub)) = 18"
    by (simp add: digest_length)
  show "kSignatureContext = map charCodeAt ''CRX3 SignedData'' @ [0]"
    by (simp add: kSignatureContext_def charCodeAt_def)
  show "length kSignatureContext = 16"
    by (simp add: kSignatureContext_bytes)
  show "le32 18 = [18, 0, 0, 0]"
    by (simp add: le32_def)
  show "packCrx3 env priv pub c r =
     andThen (andThen (rsa_or_new env r priv) (\<lambda>k. rsa_sign env k Pkcs1_sha256
                (kSignatureContext @ le32 18 @ ([10, 16] @ take 16 (digest env pub)) @ c)))
       (\<lambda>sg. let header = CrxFileHeader_write
                     \<lparr>sha256_with_rsa = Some [\<lparr>public_key = Some pub, signature = Some sg\<rparr>],
                      sha256_with_ecdsa = None,
                      signed_header_data = Some ([10, 16] @ take 16 (digest env pub))\<rparr> []
               in Inr (kSignature @ kVersion @ le32 (length header) @ header @ c))"
    unfolding packCrx3_container generateCrx3Signature_payload shd len
    by (cases "rsa_or_new env r priv") simp_all
qed

theorem packCrx3_signed_bytes_witness:
  "packCrx3 (example_node\<lparr>rsa_sign := (\<lambda>r s d. Inr d)\<rparr>) [1, 2, 3] [4, 5] [80, 75] None =
     Inr ([67, 114, 50, 52] @ [3, 0, 0, 0] @ [70, 0, 0, 0]
          @ [18, 46, 10, 2, 4, 5, 18, 40]
          @ [67, 82, 88, 51, 32, 83, 105, 103, 110, 101, 100, 68, 97, 116, 97, 0]
          @ [18, 0, 0, 0]
          @ [10, 16, 1, 35, 69, 103, 137, 171, 205, 239, 0, 17, 34, 51, 68, 85, 102, 119]
          @ [80, 75]
          @ [130, 241, 4, 18, 10, 16, 1, 35, 69, 103, 137, 171, 205, 239, 0, 17, 34, 51, 68, 85,
             102, 119]
          @ [80, 75])"
proof -
  define E where "E = example_node\<lparr>rsa_sign := (\<lambda>r s d. Inr d)\<rparr>"
  have d: "digest E k = digest example_node k" for k
    by (simp add: digest_def E_def)
  have k: "rsa_or_new E None [1, 2, 3] = Inr 7"
    by (simp add: rsa_or_new_def E_def example_node_def)
  have g: "rsa_sign E x y z = Inr z" for x y z
    by (simp add: E_def)
  from packCrx3_signed_bytes [of E "[1, 2, 3]" "[4, 5]" "[80, 75]" None]
  have "packCrx3 E [1, 2, 3] [4, 5] [80, 75] None =
     Inr ([67, 114, 50, 52] @ [3, 0, 0, 0] @ [70, 0, 0, 0]
          @ [18, 46, 10, 2, 4, 5, 18, 40]
          @ [67, 82, 88, 51, 32, 83, 105, 103, 110, 101, 100, 68, 97, 116, 97, 0]
          @ [18, 0, 0, 0]
          @ [10, 16, 1, 35, 69, 103, 137, 171, 205, 239, 0, 17, 34, 51, 68, 85, 102, 119]
          @ [80, 75]
          @ [130, 241, 4, 18, 10, 16, 1, 35, 69, 103, 137, 171, 205, 239, 0, 17, 34, 51, 68, 85,
             102, 119]
          @ [80, 75])"
    by (simp add: d k g digest_example kSignatureContext_bytes
          le32_def CrxFileHeader_write_bytes varint_small kSignature_bytes kVersion_def)
  then show ?thesis by (simp only: E_def)
qed

subsection \<open>C4: what \<open>unpack\<close> rejects\<close>

text \<open>
  C4 says that every buffer that does not start with the magic, the empty buffer
  included, fails with the format error. The magic is compared byte by byte through a
  \<^verbatim>\<open>DataView\<close>, and a read outside the buffer throws a RangeError: the empty buffer
  fails with a RangeError, not with the format error.
\<close>

theorem unpack_empty_buffer:
  "unpack (whole []) = Inl RangeError
   \<and> unpack (whole []) \<noteq> Inl (Error ''The file given is not a valid CRX file'')"
  by (simp add: unpack_unfold every_def kSignature_bytes getUint8_def)

text \<open>
  C4 as amended. For an array that spans its buffer:
  \<^item> when one of its first four bytes differs from the magic at its position, \<open>unpack\<close>
    fails with the format error;
  \<^item> when the array is a proper prefix of the magic (the empty array, or the first one,
    two or three bytes of the magic), \<open>unpack\<close> fails with a RangeError;
  \<^item> when it starts with the magic and has fewer than 8 bytes, \<open>unpack\<close> fails with a
    RangeError;
  \<^item> when it starts with the magic and its version field is neither 2 nor 3, \<open>unpack\<close>
    fails with the format error.
  In each case nothing is returned.
\<close>

theorem unpack_rejects:
  assumes "spans_buffer arr"
  shows "(\<not> prefix (take 4 (elements arr)) kSignature \<longrightarrow>
            unpack arr = Inl (Error ''The file given is not a valid CRX file''))
       \<and> (strict_prefix (elements arr) kSignature \<longrightarrow> unpack arr = Inl RangeError)
       \<and> (take 4 (elements arr) = kSignature \<and> length (elements arr) < 8 \<longrightarrow>
            unpack arr = Inl RangeError)
       \<and> (take 4 (elements arr) = kSignature \<and> getUint32 (elements arr) 4 = Inr v
            \<and> v \<noteq> 2 \<and> v \<noteq> 3 \<longrightarrow>
            unpack arr = Inl (Error ''The file given is not a valid CRX file''))"
proof -
  let ?e = "elements arr"
  have e: "buffer arr = ?e" using assms by (simp add: elements_spans)
  have a: "unpack arr = Inl (Error ''The file given is not a valid CRX file'')"
    if "\<not> prefix (take 4 ?e) kSignature"
    using that by (simp add: unpack_unfold e magic_cases)
  have b: "unpack arr = Inl RangeError" if "strict_prefix ?e kSignature"
  proof -
    from that have len: "length ?e < 4"
      using prefix_length_less [of ?e kSignature] by (simp add: kSignature_bytes)
    with that have "prefix (take 4 ?e) kSignature"
      by (simp add: strict_prefix_def)
    with len show ?thesis by (simp add: unpack_unfold e magic_cases)
  qed
  have c: "unpack arr = Inl RangeError" if "take 4 ?e = kSignature" "length ?e < 8"
    using that magic_length [of ?e] by (simp add: unpack_unfold e magic_cases getUint32_def)
  have d: "unpack arr = Inl (Error ''The file given is not a valid CRX file'')"
    if "take 4 ?e = kSignature" "getUint32 ?e 4 = Inr v" "v \<noteq> 2" "v \<noteq> 3"
    using that magic_length [of ?e] by (simp add: unpack_unfold e magic_cases)
  from a b c d show ?thesis by blast
qed

theorem unpack_rejects_witness:
  "spans_buffer (whole [80, 75, 3, 4])
   \<and> \<not> prefix (take 4 (elements (whole [80, 75, 3, 4]))) kSignature
   \<and> unpack (whole [80, 75, 3, 4]) = Inl (Error ''The file given is not a valid CRX file'')
   \<and> strict_prefix (elements (whole [67, 114])) kSignature
   \<and> unpack (whole [67, 114]) = Inl RangeError
   \<and> take 4 (elements (whole [67, 114, 50, 52, 2, 0])) = kSignature
   \<and> unpack (whole [67, 114, 50, 52, 2, 0]) = Inl RangeError
   \<and> getUint32 (elements (whole [67, 114, 50, 52, 4, 0, 0, 0, 1])) 4 = Inr 4
   \<and> unpack (whole [67, 114, 50, 52, 4, 0, 0, 0, 1])
       = Inl (Error ''The file given is not a valid CRX file'')"
  using unpack_rejects [of "whole [80, 75, 3, 4]"]
    unpack_rejects [of "whole [67, 114]"]
    unpack_rejects [of "whole [67, 114, 50, 52, 2, 0]"]
    unpack_rejects [of "whole [67, 114, 50, 52, 4, 0, 0, 0, 1]" 4]
  by (simp add: kSignature_bytes getUint32_def)

subsection \<open>C5: a version that is neither 2 nor 3\<close>

text \<open>
  C5 says that a request for the container with a version other than 2 and 3 fails with
  an error of its own. The chain at lines 547 to 550 has a branch for 3 (or no version)
  and a branch for 2 and no other: with any other version \<open>pack\<close> goes on, and whatever
  happens then, \<open>crx\<close> is still \<open>null\<close> in the record. When contents and keys are given as
  bytes and nothing else is requested, \<open>pack\<close> resolves and returns the record as it was.
\<close>

theorem pack_unsupported_version:
  assumes "crx opts = Null" and "crxVersion opts = Some v" and "v \<noteq> 2" and "v \<noteq> 3"
  shows "crx (options_after (pack env opts)) = Null
       \<and> (contents opts = Some (Bytes b) \<and> privateKey opts = Given (Bytes k)
            \<and> publicKey opts = Given (Bytes pk) \<and> id' opts = Undefined
            \<and> updateXML opts = Undefined \<and> extVersion opts = Undefined
            \<and> minChromeVersion opts = Undefined
          \<longrightarrow> pack env opts = Resolved opts)"
proof
  have "crx (options_after (pack env opts)) = Null
        \<and> crxVersion (options_after (pack env opts)) = Some v"
    by (rule pack_invariant [where P = "\<lambda>opts. crx opts = Null \<and> crxVersion opts = Some v"])
       (use assms in \<open>auto simp: step_defs Let_def request_def
          split: field.splits blob.splits option.splits sum.splits prod.splits\<close>)
  then show "crx (options_after (pack env opts)) = Null" ..
  show "contents opts = Some (Bytes b) \<and> privateKey opts = Given (Bytes k)
            \<and> publicKey opts = Given (Bytes pk) \<and> id' opts = Undefined
            \<and> updateXML opts = Undefined \<and> extVersion opts = Undefined
            \<and> minChromeVersion opts = Undefined
          \<longrightarrow> pack env opts = Resolved opts"
    using assms by (simp add: pack_def step_defs request_def)
qed

theorem pack_unsupported_version_witness:
  "pack example_node
     (example_input\<lparr>contents := Some (Bytes [80, 75]), privateKey := Given (Bytes [1, 2, 3]),
        publicKey := Given (Bytes [4, 5]), crx := Null, crxVersion := Some 4\<rparr>)
   = Resolved
     (example_input\<lparr>contents := Some (Bytes [80, 75]), privateKey := Given (Bytes [1, 2, 3]),
        publicKey := Given (Bytes [4, 5]), crx := Null, crxVersion := Some 4\<rparr>)
   \<and> crx (options_after (pack example_node
     (example_input\<lparr>contents := Some (Bytes [80, 75]), privateKey := Given (Bytes [1, 2, 3]),
        publicKey := Given (Bytes [4, 5]), crx := Null, crxVersion := Some 4\<rparr>))) = Null"
  using pack_unsupported_version [where env = example_node and v = 4 and b = "[80, 75]"
     and k = "[1, 2, 3]" and pk = "[4, 5]" and opts =
     "example_input\<lparr>contents := Some (Bytes [80, 75]), privateKey := Given (Bytes [1, 2, 3]),
        publicKey := Given (Bytes [4, 5]), crx := Null, crxVersion := Some 4\<rparr>"]
  by (simp add: example_input_def)

subsection \<open>C6: what the caller gave\<close>




subsection \<open>C7: the identifier\<close>

text \<open>
  C7: for every key \<open>k\<close>, \<open>generateCrxId k\<close> has exactly 32 characters; its \<open>i\<close>-th
  character is the letter \<open>'a' + v\<close> for the \<open>i\<close>-th hexadecimal digit \<open>v\<close> of the SHA-256
  digest of \<open>k\<close> (the high half of byte \<open>i div 2\<close> when \<open>i\<close> is even, the low half when it
  is odd); every character is one of a to p; and the result is a function of the key and
  of the digest function only.
\<close>

theorem generateCrxId_alphabet:
  "length (generateCrxId env k) = 32
   \<and> (\<forall>i<32. generateCrxId env k ! i =
         ''abcdefghijklmnop'' ! (if even i then unat (digest env k ! (i div 2)) div 16
                                else unat (digest env k ! (i div 2)) mod 16))
   \<and> set (generateCrxId env k) \<subseteq> set ''abcdefghijklmnop''
   \<and> (\<forall>env' :: 'b node. sha256 env' = sha256 env \<longrightarrow>
         generateCrxId env' k = generateCrxId env k)"
proof (intro conjI allI impI)
  show "length (generateCrxId env k) = 32"
    by (simp add: generateCrxId_nibbles length_nibbles digest_length)
  show "generateCrxId env k ! i =
         ''abcdefghijklmnop'' ! (if even i then unat (digest env k ! (i div 2)) div 16
                                else unat (digest env k ! (i div 2)) mod 16)" if "i < 32" for i
    using that by (simp add: generateCrxId_nibbles length_nibbles digest_length nth_nibbles)
  show "set (generateCrxId env k) \<subseteq> set ''abcdefghijklmnop''"
  proof
    fix c assume "c \<in> set (generateCrxId env k)"
    then obtain v where v: "v \<in> set (nibbles (digest env k))" and "c = ''abcdefghijklmnop'' ! v"
      by (auto simp: generateCrxId_nibbles dest: in_set_takeD)
    moreover have "length ''abcdefghijklmnop'' = 16" by simp
    with v nibbles_lt [of v] have "v < length ''abcdefghijklmnop''"
      by (simp only:)
    ultimately show "c \<in> set ''abcdefghijklmnop''"
      using nth_mem [of v "''abcdefghijklmnop''"] by blast
  qed
  show "generateCrxId env' k = generateCrxId env k" if "sha256 env' = sha256 env"
    for env' :: "'b node"
    using that by (simp add: generateCrxId_def digest_def)
qed

theorem generateCrxId_alphabet_witness:
  "length (generateCrxId example_node [4, 5]) = 32
   \<and> (5::nat) < 32
   \<and> generateCrxId example_node [4, 5] ! 5 = CHR ''f''
   \<and> set (generateCrxId example_node [4, 5]) \<subseteq> set ''abcdefghijklmnop''
   \<and> generateCrxId example_node [4, 5] = ''abcdefghijklmnopaabbccddeeffgghh''"
proof -
  have d: "digest example_node [4, 5] ! 2 = 69"
    by (simp add: digest_example)
  have id: "generateCrxId example_node [4, 5] = ''abcdefghijklmnopaabbccddeeffgghh''"
    by code_simp
  from generateCrxId_alphabet [of example_node "[4, 5]"]
  have "length (generateCrxId example_node [4, 5]) = 32"
    and "\<forall>i<32. generateCrxId example_node [4, 5] ! i =
         ''abcdefghijklmnop'' ! (if even i then unat (digest example_node [4, 5] ! (i div 2)) div 16
                                else unat (digest example_node [4, 5] ! (i div 2)) mod 16)"
    and "set (generateCrxId example_node [4, 5]) \<subseteq> set ''abcdefghijklmnop''"
    by blast+
  with id show ?thesis by (simp add: d)
qed

subsection \<open>C8: contents required\<close>

text \<open>
  C8 says that a request for the container without contents always fails with the
  "contents" error. The check for \<open>crxUrl\<close> at line 513 comes first: with the update
  document requested too, and no \<open>crxUrl\<close>, the error is that one.
\<close>

theorem pack_crxUrl_first:
  "pack example_node (example_input\<lparr>crx := Null, updateXML := Null\<rparr>)
     = Rejected (Error ''crxUrl must be defined to generate updateXML'')
         (example_input\<lparr>crx := Null, updateXML := Null\<rparr>)"
  by (simp add: pack_def step_defs example_input_def)

text \<open>
  C8 as amended. With the container requested and no contents, \<open>pack\<close> always throws,
  and the outcome is the same whatever the key generator would return: no key is
  generated. When reading the key files that are given as paths does not throw, and the
  update document is not requested without a \<open>crxUrl\<close>, the error is "contents must be
  defined to generate crx", and \<open>privateKey\<close>, \<open>publicKey\<close> and \<open>rsa\<close> are as they were after
  the key files were read. When reading the key files does not throw and the update
  document is requested without a \<open>crxUrl\<close>, the error is "crxUrl must be defined to
  generate updateXML".
\<close>

theorem pack_contents_required:
  assumes "crx opts = Null" and "contents opts = None"
  shows "(\<exists>e after. pack env opts = Rejected e after)
       \<and> (\<forall>g. pack (env\<lparr>generate_RSA := g\<rparr>) opts = pack env opts)
       \<and> (loadPrivateKey env opts = Resolved o1 \<and> loadPublicKey env o1 = Resolved o2
            \<and> (updateXML opts \<noteq> Null \<or> crxUrl opts \<noteq> None)
          \<longrightarrow> (\<exists>after. pack env opts =
                        Rejected (Error ''contents must be defined to generate crx'') after
                 \<and> privateKey after = privateKey o2 \<and> publicKey after = publicKey o2
                 \<and> rsa after = rsa o2))
       \<and> (loadPrivateKey env opts = Resolved o1 \<and> loadPublicKey env o1 = Resolved o2
            \<and> updateXML opts = Null \<and> crxUrl opts = None
          \<longrightarrow> pack env opts =
                 Rejected (Error ''crxUrl must be defined to generate updateXML'') o2)"
proof (intro conjI allI impI)
  show "\<exists>e after. pack env opts = Rejected e after"
    unfolding pack_without_contents [OF assms]
    by (intro next_step_rejects) blast
  show "pack (env\<lparr>generate_RSA := g\<rparr>) opts = pack env opts" for g
    by (simp only: pack_without_contents [OF assms] loads_generate)
  {
    assume h: "loadPrivateKey env opts = Resolved o1 \<and> loadPublicKey env o1 = Resolved o2
            \<and> (updateXML opts \<noteq> Null \<or> crxUrl opts \<noteq> None)"
    with loads_keep(3,4) [of env opts] loads_keep(7,8) [of env o1]
    have u: "updateXML o2 \<noteq> Null \<or> crxUrl o2 \<noteq> None" by auto
    from h have "pack env opts =
         next_step (requireForUpdateXML o2) (\<lambda>options.
         next_step (requireForExtVersion options) (\<lambda>options.
         next_step (requireForMinChromeVersion options) (\<lambda>options.
         Rejected (Error ''contents must be defined to generate crx'') options)))"
      by (simp add: pack_without_contents [OF assms])
    with u show "\<exists>after. pack env opts =
                        Rejected (Error ''contents must be defined to generate crx'') after
                 \<and> privateKey after = privateKey o2 \<and> publicKey after = publicKey o2
                 \<and> rsa after = rsa o2"
      by (auto simp: requireForUpdateXML_def requireForExtVersion_def
            requireForMinChromeVersion_def)
  }
  {
    assume h: "loadPrivateKey env opts = Resolved o1 \<and> loadPublicKey env o1 = Resolved o2
            \<and> updateXML opts = Null \<and> crxUrl opts = None"
    with loads_keep(3,4) [of env opts] loads_keep(7,8) [of env o1]
    have u: "updateXML o2 = Null \<and> crxUrl o2 = None" by auto
    from h have "pack env opts =
         next_step (requireForUpdateXML o2) (\<lambda>options.
         next_step (requireForExtVersion options) (\<lambda>options.
         next_step (requireForMinChromeVersion options) (\<lambda>options.
         Rejected (Error ''contents must be defined to generate crx'') options)))"
      by (simp add: pack_without_contents [OF assms])
    with u show "pack env opts =
                 Rejected (Error ''crxUrl must be defined to generate updateXML'') o2"
      by (simp add: requireForUpdateXML_def)
  }
qed

theorem pack_contents_required_witness:
  "(let opts = example_input\<lparr>crx := Null, privateKey := Given (Path ''key.der'')\<rparr>;
        loaded = example_input\<lparr>crx := Null, privateKey := Given (Bytes [1, 2, 3])\<rparr>
    in crx opts = Null \<and> contents opts = None \<and> updateXML opts = Undefined
       \<and> loadPrivateKey example_node opts = Resolved loaded
       \<and> loadPublicKey example_node loaded = Resolved loaded
       \<and> pack example_node opts =
           Rejected (Error ''contents must be defined to generate crx'') loaded
       \<and> pack (example_node\<lparr>generate_RSA := (\<lambda>bits. 0)\<rparr>) opts = pack example_node opts)
   \<and> (let opts = example_input\<lparr>crx := Null, updateXML := Null,
                                 privateKey := Given (Bytes [1, 2, 3])\<rparr>
    in crx opts = Null \<and> contents opts = None \<and> updateXML opts = Null \<and> crxUrl opts = None
       \<and> loadPrivateKey example_node opts = Resolved opts
       \<and> loadPublicKey example_node opts = Resolved opts
       \<and> pack example_node opts =
           Rejected (Error ''crxUrl must be defined to generate updateXML'') opts)"
proof -
  define opts where
    "opts = example_input\<lparr>crx := Null, privateKey := Given (Path ''key.der'')\<rparr>"
  define loaded where
    "loaded = example_input\<lparr>crx := Null, privateKey := Given (Bytes [1, 2, 3])\<rparr>"
  define opts' where
    "opts' = example_input\<lparr>crx := Null, updateXML := Null,
                             privateKey := Given (Bytes [1, 2, 3])\<rparr>"
  have h: "crx opts = Null" "contents opts = None" "updateXML opts = Undefined"
    by (simp_all add: opts_def example_input_def)
  have l1: "loadPrivateKey example_node opts = Resolved loaded"
    by (simp add: loadPrivateKey_def example_node_def opts_def loaded_def example_input_def
          suffix_to_prefix)
  have l2: "loadPublicKey example_node loaded = Resolved loaded"
    by (simp add: loadPublicKey_def loaded_def example_input_def)
  from pack_contents_required [OF h(1,2), of example_node loaded loaded] l1 l2 h(3)
  obtain after where a: "pack example_node opts =
      Rejected (Error ''contents must be defined to generate crx'') after"
    and g: "pack (example_node\<lparr>generate_RSA := (\<lambda>bits. 0)\<rparr>) opts = pack example_node opts"
    by auto
  have "pack example_node opts =
      Rejected (Error ''contents must be defined to generate crx'') loaded"
    by (simp add: pack_without_contents [OF h(1,2)] l1 l2)
       (simp add: step_defs loaded_def example_input_def request_def)
  with h l1 l2 g have first: "crx opts = Null \<and> contents opts = None \<and> updateXML opts = Undefined
       \<and> loadPrivateKey example_node opts = Resolved loaded
       \<and> loadPublicKey example_node loaded = Resolved loaded
       \<and> pack example_node opts =
           Rejected (Error ''contents must be defined to generate crx'') loaded
       \<and> pack (example_node\<lparr>generate_RSA := (\<lambda>bits. 0)\<rparr>) opts = pack example_node opts"
    by simp
  have h': "crx opts' = Null" "contents opts' = None" "updateXML opts' = Null"
    "crxUrl opts' = None"
    by (simp_all add: opts'_def example_input_def)
  have l': "loadPrivateKey example_node opts' = Resolved opts'"
    "loadPublicKey example_node opts' = Resolved opts'"
    by (simp_all add: loadPrivateKey_def loadPublicKey_def opts'_def example_input_def)
  from pack_contents_required [OF h'(1,2), of example_node opts' opts'] l' h'(3,4)
  have "pack example_node opts' =
           Rejected (Error ''crxUrl must be defined to generate updateXML'') opts'"
    by simp
  with h' l' first show ?thesis
    unfolding Let_def opts_def [symmetric] loaded_def [symmetric] opts'_def [symmetric]
    by simp
qed

subsection \<open>C9: the minimum Chrome version\<close>

text \<open>
  C9 says that a \<open>minimum_chrome_version\<close> that the manifest declares is the result. It is
  taken with \<^verbatim>\<open>||\<close>: a declared empty string counts as none.
\<close>

theorem pack_minChromeVersion_empty:
  "pack example_node
     (example_input\<lparr>minChromeVersion := Null,
        manifest := Given \<lparr>manifest_version = 3, name = ''example'', version = ''1.0'',
                            minimum_chrome_version = Some []\<rparr>\<rparr>)
   = Resolved
     (example_input\<lparr>minChromeVersion := Given ''73.0.3683'',
        manifest := Given \<lparr>manifest_version = 3, name = ''example'', version = ''1.0'',
                            minimum_chrome_version = Some []\<rparr>\<rparr>)"
  by (simp add: pack_def step_defs example_input_def request_def)

text \<open>
  C9 as amended. When \<open>minChromeVersion\<close> is requested and \<open>pack\<close> resolves: if the
  manifest of the result declares a \<open>minimum_chrome_version\<close> that is not empty, the
  result is that value; otherwise it is "73.0.3683" when \<open>crxVersion\<close> is 3 or absent, and
  \<open>undefined\<close> for any other \<open>crxVersion\<close>.
\<close>

theorem pack_minChromeVersion:
  assumes "minChromeVersion opts = Null" and "pack env opts = Resolved after"
  shows "(let declared = (case manifest after of Given m \<Rightarrow> minimum_chrome_version m
                          | _ \<Rightarrow> None)
          in minChromeVersion after =
               (if declared \<noteq> None \<and> declared \<noteq> Some [] then Given (the declared)
                else if crxVersion opts = Some 3 \<or> crxVersion opts = None
                     then Given ''73.0.3683'' else Undefined))"
proof -
  from assms(2) obtain o1 o2 o3 o4 o5 o6 o7 o8 o9 o10 o11 o12 o13 o14 o15 where
    s: "loadPrivateKey env opts = Resolved o1" "loadPublicKey env o1 = Resolved o2"
       "requireForUpdateXML o2 = Resolved o3" "requireForExtVersion o3 = Resolved o4"
       "requireForMinChromeVersion o4 = Resolved o5" "requireForCrx o5 = Resolved o6"
       "requireForId o6 = Resolved o7" "requireForPublicKey o7 = Resolved o8"
       "generateKeys env o8 = Resolved o9" "derivePublicKey env o9 = Resolved o10"
       "loadContents env o10 = Resolved o11" "resolveCrx env o11 = Resolved o12"
       "resolveId env o12 = Resolved o13" "resolveExtVersion o13 = Resolved o14"
    and m: "resolveMinChromeVersion o14 = Resolved o15"
    and u: "resolveUpdateXML o15 = Resolved after"
    unfolding pack_def next_step_Resolved_iff by (elim exE conjE) (rule that)
  note q = minChromeVersion_requested [where cv = "crxVersion opts"]
  from assms(1) have "minChromeVersion opts = Null \<and> crxVersion opts = crxVersion opts" by simp
  from q(1) [OF this, of env] s(1) have "minChromeVersion o1 = Null \<and> crxVersion o1 = crxVersion opts"
    by simp
  from q(2) [OF this, of env] s(2) have "minChromeVersion o2 = Null \<and> crxVersion o2 = crxVersion opts"
    by simp
  from q(3) [OF this] s(3) have "minChromeVersion o3 = Null \<and> crxVersion o3 = crxVersion opts"
    by simp
  from q(4) [OF this] s(4) have "minChromeVersion o4 = Null \<and> crxVersion o4 = crxVersion opts"
    by simp
  from q(5) [OF this] s(5) have "minChromeVersion o5 = Null \<and> crxVersion o5 = crxVersion opts"
    by simp
  from q(6) [OF this] s(6) have "minChromeVersion o6 = Null \<and> crxVersion o6 = crxVersion opts"
    by simp
  from q(7) [OF this] s(7) have "minChromeVersion o7 = Null \<and> crxVersion o7 = crxVersion opts"
    by simp
  from q(8) [OF this] s(8) have "minChromeVersion o8 = Null \<and> crxVersion o8 = crxVersion opts"
    by simp
  from q(9) [OF this, of env] s(9) have "minChromeVersion o9 = Null \<and> crxVersion o9 = crxVersion opts"
    by simp
  from q(10) [OF this, of env] s(10) have "minChromeVersion o10 = Null \<and> crxVersion o10 = crxVersion opts"
    by simp
  from q(11) [OF this, of env] s(11) have "minChromeVersion o11 = Null \<and> crxVersion o11 = crxVersion opts"
    by simp
  from q(12) [OF this, of env] s(12) have "minChromeVersion o12 = Null \<and> crxVersion o12 = crxVersion opts"
    by simp
  from q(13) [OF this, of env] s(13) have "minChromeVersion o13 = Null \<and> crxVersion o13 = crxVersion opts"
    by simp
  from q(14) [OF this] s(14) have "minChromeVersion o14 = Null \<and> crxVersion o14 = crxVersion opts"
    by simp
  then have n: "minChromeVersion o14 = Null" and v: "crxVersion o14 = crxVersion opts"
    by simp_all
  define fallback where
    "fallback = (if crxVersion opts = Some 3 \<or> crxVersion opts = None
                 then Given ''73.0.3683'' else Undefined)"
  define declared where
    "declared = (case manifest o14 of Given m \<Rightarrow> minimum_chrome_version m | _ \<Rightarrow> None)"
  have "resolveMinChromeVersion o14 = Resolved (o14\<lparr>minChromeVersion :=
      (case declared of Some v \<Rightarrow> if v \<noteq> [] then Given v else fallback | None \<Rightarrow> fallback)\<rparr>)"
    by (simp only: resolveMinChromeVersion_def n v Let_def declared_def fallback_def if_True
          simp_thms)
  with m have o15: "o15 = o14\<lparr>minChromeVersion :=
      (case declared of Some v \<Rightarrow> if v \<noteq> [] then Given v else fallback | None \<Rightarrow> fallback)\<rparr>"
    by simp
  from u have "manifest after = manifest o15 \<and> minChromeVersion after = minChromeVersion o15"
    by (cases "updateXML o15 = Null") (auto simp: resolveUpdateXML_def)
  with o15 have "manifest after = manifest o14"
    and "minChromeVersion after =
      (case declared of Some v \<Rightarrow> if v \<noteq> [] then Given v else fallback | None \<Rightarrow> fallback)"
    by simp_all
  then show ?thesis
    unfolding Let_def declared_def [symmetric] fallback_def [symmetric]
    by (cases declared) (simp_all add: declared_def)
qed

theorem pack_minChromeVersion_witness:
  "pack example_node (example_input\<lparr>minChromeVersion := Null, contents := Some (Path ''ext'')\<rparr>)
     = Resolved (example_input\<lparr>minChromeVersion := Given ''90.0'',
         contents := Some (Bytes [80, 75]),
         manifest := Given \<lparr>manifest_version = 3, name = ''example'', version = ''1.0'',
                             minimum_chrome_version = Some ''90.0''\<rparr>\<rparr>)
   \<and> minChromeVersion (options_after (pack example_node (example_input\<lparr>minChromeVersion := Null\<rparr>)))
       = Given ''73.0.3683''
   \<and> minChromeVersion (options_after (pack example_node
         (example_input\<lparr>minChromeVersion := Null, crxVersion := Some 2\<rparr>))) = Undefined"
proof (intro conjI)
  show a: "pack example_node (example_input\<lparr>minChromeVersion := Null, contents := Some (Path ''ext'')\<rparr>)
     = Resolved (example_input\<lparr>minChromeVersion := Given ''90.0'',
         contents := Some (Bytes [80, 75]),
         manifest := Given \<lparr>manifest_version = 3, name = ''example'', version = ''1.0'',
                             minimum_chrome_version = Some ''90.0''\<rparr>\<rparr>)"
    by (simp add: pack_def step_defs example_node_def example_input_def request_def)
  have b: "pack example_node (example_input\<lparr>minChromeVersion := Null\<rparr>)
             = Resolved (example_input\<lparr>minChromeVersion := Given ''73.0.3683'', manifest := Null\<rparr>)"
    by (simp add: pack_def step_defs example_input_def request_def)
  have cv: "crxVersion example_input = None" by (simp add: example_input_def)
  from pack_minChromeVersion [OF _ b]
  show "minChromeVersion (options_after (pack example_node (example_input\<lparr>minChromeVersion := Null\<rparr>)))
       = Given ''73.0.3683''"
    by (simp add: b cv)
  have c: "pack example_node (example_input\<lparr>minChromeVersion := Null, crxVersion := Some 2\<rparr>)
             = Resolved (example_input\<lparr>minChromeVersion := Undefined, crxVersion := Some 2,
                 manifest := Null\<rparr>)"
    by (simp add: pack_def step_defs example_input_def request_def)
  then show "minChromeVersion (options_after (pack example_node
         (example_input\<lparr>minChromeVersion := Null, crxVersion := Some 2\<rparr>))) = Undefined"
    by simp
qed

subsection \<open>C10: lengths that overrun the buffer\<close>

text \<open>
  C10: when the buffer behind the array begins with the magic and the version 2, and the
  key length and the signature length it declares run past the end of the array,
  \<open>unpack\<close> does not fail. It returns a version 2 record whose fields are the slices cut
  off at the end of the array: the key is what is there of it after offset 16, the
  signature is the rest, the archive is empty, and key and signature together are the
  bytes of the array after offset 16. (The lengths are read from \<^verbatim>\<open>crx.buffer\<close>,
  which for an array that spans its buffer is the array itself.)
\<close>

theorem unpack_overrun:
  assumes "take 4 (buffer arr) = kSignature"
    and "getUint32 (buffer arr) 4 = Inr 2"
    and "getUint32 (buffer arr) 8 = Inr keyLength"
    and "getUint32 (buffer arr) 12 = Inr signLength"
    and "length (elements arr) < 16 + keyLength + signLength"
  shows "unpack arr = Inr (Crx2 [] (take keyLength (drop 16 (elements arr)))
                                 (drop (16 + keyLength) (elements arr)))
         \<and> length (take keyLength (drop 16 (elements arr)))
             + length (drop (16 + keyLength) (elements arr)) = length (elements arr) - 16"
proof
  from assms magic_length [of "buffer arr"]
  show "unpack arr = Inr (Crx2 [] (take keyLength (drop 16 (elements arr)))
                               (drop (16 + keyLength) (elements arr)))"
    by (simp add: unpack_unfold magic_cases slice_def slice_from_def)
  show "length (take keyLength (drop 16 (elements arr)))
          + length (drop (16 + keyLength) (elements arr)) = length (elements arr) - 16"
    by (simp add: min_def)
qed

theorem unpack_overrun_witness:
  "unpack (whole [67, 114, 50, 52, 2, 0, 0, 0, 3, 0, 0, 0, 9, 0, 0, 0, 1, 2, 3, 4])
     = Inr (Crx2 [] [1, 2, 3] [4])"
  using unpack_overrun
    [of "whole [67, 114, 50, 52, 2, 0, 0, 0, 3, 0, 0, 0, 9, 0, 0, 0, 1, 2, 3, 4]" 3 9]
  by (simp add: kSignature_bytes getUint32_def)

end
